theory Spec2Isabelle
  imports Main "HOL-Library.Word" "HOL-Library.AList" "HOL-Library.Char_ord"
    "HOL-Library.List_Lexorder" "HOL-Library.Multiset"
begin

unbundle bit_operations_syntax

section \<open>JavaScript values shared by the cache services\<close>

text \<open>
  A thrown value or a rejection reason. The services throw plain \<open>Error\<close> objects with a
  message; the platform throws \<open>RangeError\<close> and \<open>TypeError\<close>; a failed IndexedDB request
  carries a \<open>DOMException\<close> in \<open>request.error\<close>.
\<close>

datatype js_error = Error string | RangeError string | TypeError string | DOMException string

text \<open>The state in which a promise returned by an \<open>async\<close> method settles.\<close>

datatype 'a settled = Fulfilled 'a | Rejected js_error

text \<open>
  A JavaScript number used as a page number. \<open>Integer neg m\<close> is the safe integer of
  magnitude \<open>m\<close>, below \<open>2^53\<close>, negative when \<open>neg\<close> holds (\<open>Integer True 0\<close> is
  \<open>-0\<close>). \<open>Huge neg s\<close> is an integer-valued number of magnitude \<open>2^53\<close> or more, with
  its sign and the text \<open>String\<close> gives it (rounded digits, or exponent form from
  \<open>1e21\<close>). \<open>NonInteger s\<close> is a number that is not an integer (\<open>1.5\<close>, \<open>NaN\<close>,
  \<open>Infinity\<close>), with its text. \<open>Number.isInteger\<close> holds of the first two.
\<close>

datatype number = Integer bool "53 word" | Huge bool string | NonInteger string

text \<open>The decimal digits of a non-negative integer, most significant first.\<close>

function digits :: "int \<Rightarrow> string" where
  "digits n = (if n < 10 then [char_of (48 + n)] else digits (n div 10) @ [char_of (48 + n mod 10)])"
  by pat_completeness auto
termination
  by (relation "measure nat") auto

declare digits.simps [simp del]

text \<open>The value of a safe integer.\<close>

definition safe_value :: "bool \<Rightarrow> 53 word \<Rightarrow> int" where
  "safe_value neg m = (if neg then - uint m else uint m)"

text \<open>\<open>String(n)\<close>, as a template literal and \<open>Array.prototype.join\<close> apply it: a safe
  integer is printed in decimal, with a sign when it is below zero.\<close>

fun toString :: "number \<Rightarrow> string" where
  "toString (Integer neg m) =
     (if safe_value neg m < 0 then CHR ''-'' # digits (uint m) else digits (uint m))"
| "toString (Huge neg s) = s"
| "toString (NonInteger s) = s"

text \<open>\<open>Array.prototype.join(sep)\<close> on strings.\<close>

fun join :: "string \<Rightarrow> string list \<Rightarrow> string" where
  "join sep [] = []"
| "join sep [x] = x"
| "join sep (x # y # ys) = x @ sep @ join sep (y # ys)"

section \<open>Sources (types.ts)\<close>

text \<open>
  The fields of an open document handle that the services read: \<open>numPages\<close>, the
  \<open>fingerprints\<close> array (absent, or an array whose elements may be \<open>null\<close>), the legacy
  \<open>fingerprint\<close> string, and \<open>_pdfInfo.fingerprints\<close>.
\<close>

record document_proxy =
  numPages :: nat
  fingerprints :: "string option list option"
  fingerprint :: "string option"
  pdfInfo_fingerprints :: "string option list option"

text \<open>
  \<open>Source\<close>: \<open>null\<close>, a URL string, an \<open>ArrayBuffer\<close> (its bytes), a \<open>Uint8Array\<close> (its
  elements, and the bytes of the buffer it views), a document handle, or any other object.
  Of another object the services only take \<open>JSON.stringify(source, null, 0)\<close>, a host
  function that either throws (a cyclic structure, a \<open>BigInt\<close>) or returns the text.
\<close>

datatype source =
    SNull
  | SString string
  | SArrayBuffer "8 word list"
  | SUint8Array "8 word list" "8 word list"
  | SDocument document_proxy
  | SObject "js_error + string"

text \<open>\<open>arr[0] || 'unknown'\<close>: the first element unless it is missing, \<open>null\<close> or empty.\<close>

fun first_or_unknown :: "string option list \<Rightarrow> string" where
  "first_or_unknown (Some s # _) = (if s = [] then ''unknown'' else s)"
| "first_or_unknown _ = ''unknown''"

section \<open>Volatile store (services/textLayerCache.ts)\<close>

subsection \<open>Key derivation\<close>

text \<open>
  \<open>crypto.subtle.digest('SHA-256', data)\<close> is a platform function: it is a parameter
  of the model, and it may reject (\<open>crypto.subtle\<close> is undefined outside a secure context).
\<close>

type_synonym digest = "8 word list \<Rightarrow> js_error + 8 word list"

definition hex_digit :: "nat \<Rightarrow> char" where
  "hex_digit d = (if d < 10 then char_of (48 + d) else char_of (87 + d))"

text \<open>\<open>b.toString(16).padStart(2, '0')\<close>\<close>

definition hex2 :: "8 word \<Rightarrow> string" where
  "hex2 b = [hex_digit (unat b div 16), hex_digit (unat b mod 16)]"

definition hashArrayBuffer :: "digest \<Rightarrow> 8 word list \<Rightarrow> js_error + string" where
  "hashArrayBuffer H buffer =
     (case H buffer of Inl e \<Rightarrow> Inl e | Inr hashBuffer \<Rightarrow> Inr (concat (map hex2 hashBuffer)))"

text \<open>\<open>TextEncoder.encode\<close>: UTF-8, for the code units below 256 that \<open>char\<close> has.\<close>

definition utf8 :: "char \<Rightarrow> 8 word list" where
  "utf8 c = (let n = (of_char c :: nat) in
     if n < 128 then [of_nat n] else [of_nat (192 + n div 64), of_nat (128 + n mod 64)])"

definition hashString :: "digest \<Rightarrow> string \<Rightarrow> js_error + string" where
  "hashString H str = hashArrayBuffer H (concat (map utf8 str))"

text \<open>\<open>hashUint8Array\<close> digests \<open>array.buffer\<close>, the whole buffer behind the view.\<close>

definition hashUint8Array :: "digest \<Rightarrow> 8 word list \<Rightarrow> 8 word list \<Rightarrow> js_error + string" where
  "hashUint8Array H elems buffer = hashArrayBuffer H buffer"

definition sourceKey :: "digest \<Rightarrow> source \<Rightarrow> js_error + string" where
  "sourceKey H source =
     (case source of
        SNull \<Rightarrow> Inr ''null''
      | SString s \<Rightarrow> Inr s
      | SArrayBuffer bytes \<Rightarrow> hashArrayBuffer H bytes
      | SUint8Array elems buffer \<Rightarrow> hashUint8Array H elems buffer
      | SDocument d \<Rightarrow>
          Inr (''doc:'' @ (case fingerprints d of
                             Some fps \<Rightarrow> first_or_unknown fps
                           | None \<Rightarrow> ''unknown''))
      | SObject serialized \<Rightarrow>
          (case serialized of Inl e \<Rightarrow> Inl e | Inr str \<Rightarrow> hashString H str))"

definition generateCacheKey :: "digest \<Rightarrow> source \<Rightarrow> number \<Rightarrow> js_error + string" where
  "generateCacheKey H source pageNumber =
     (case sourceKey H source of
        Inl e \<Rightarrow> Inl e
      | Inr sk \<Rightarrow> Inr (sk @ '':'' @ toString pageNumber))"

subsection \<open>The store\<close>

record 'c cache_entry =
  content :: 'c
  lastAccessed :: int
  accessCount :: nat

text \<open>
  The counters both store classes keep. The \<open>Map\<close> of the volatile store is an association
  list in insertion order: \<open>Map.set\<close> on a present key keeps its position
  (\<open>AList.update\<close>), \<open>Map.delete\<close> is \<open>AList.delete\<close>.
\<close>

record counters =
  hitCount :: nat
  missCount :: nat

record 'c text_layer_cache = counters +
  cache :: "(string \<times> 'c cache_entry) list"
  maxSize :: nat

definition new_TextLayerCache :: "nat \<Rightarrow> 'c text_layer_cache" where
  "new_TextLayerCache n = \<lparr>hitCount = 0, missCount = 0, cache = [], maxSize = n\<rparr>"

definition has :: "(string \<times> 'v) list \<Rightarrow> string \<Rightarrow> bool" where
  "has m k = (map_of m k \<noteq> None)"

text \<open>\<open>get(source, pageNumber)\<close>; \<open>now\<close> is the reading of \<open>Date.now()\<close> on a hit.\<close>

definition TextLayerCache_get ::
  "digest \<Rightarrow> int \<Rightarrow> source \<Rightarrow> number \<Rightarrow> 'c text_layer_cache
     \<Rightarrow> 'c option settled \<times> 'c text_layer_cache" where
  "TextLayerCache_get H now source pageNumber st =
     (case generateCacheKey H source pageNumber of
        Inl e \<Rightarrow> (Rejected e, st)
      | Inr key \<Rightarrow>
          (case map_of (cache st) key of
             Some entry \<Rightarrow>
               (Fulfilled (Some (content entry)),
                st\<lparr>cache := AList.update key
                       (entry\<lparr>lastAccessed := now, accessCount := accessCount entry + 1\<rparr>)
                       (cache st),
                   hitCount := hitCount st + 1\<rparr>)
           | None \<Rightarrow> (Fulfilled None, st\<lparr>missCount := missCount st + 1\<rparr>)))"

text \<open>
  The scan of \<open>evictLRU\<close>: \<open>oldestKey\<close> starts as the empty string and \<open>oldestTime\<close> as
  \<open>Infinity\<close> (\<open>None\<close>); an entry replaces them when its time is strictly smaller.
\<close>

fun evictLRU_scan ::
  "(string \<times> 'c cache_entry) list \<Rightarrow> string \<times> int option \<Rightarrow> string \<times> int option" where
  "evictLRU_scan [] acc = acc"
| "evictLRU_scan ((key, entry) # rest) (oldestKey, oldestTime) =
     evictLRU_scan rest
       (if (case oldestTime of None \<Rightarrow> True | Some t \<Rightarrow> lastAccessed entry < t)
        then (key, Some (lastAccessed entry))
        else (oldestKey, oldestTime))"

definition evictLRU :: "'c text_layer_cache \<Rightarrow> 'c text_layer_cache" where
  "evictLRU st =
     (let oldestKey = fst (evictLRU_scan (cache st) ('''', None))
      in if oldestKey \<noteq> '''' then st\<lparr>cache := AList.delete oldestKey (cache st)\<rparr> else st)"

text \<open>\<open>set(source, pageNumber, content)\<close>; \<open>now\<close> is the reading of \<open>Date.now()\<close>.\<close>

definition TextLayerCache_set ::
  "digest \<Rightarrow> int \<Rightarrow> source \<Rightarrow> number \<Rightarrow> 'c \<Rightarrow> 'c text_layer_cache
     \<Rightarrow> unit settled \<times> 'c text_layer_cache" where
  "TextLayerCache_set H now source pageNumber c st =
     (case generateCacheKey H source pageNumber of
        Inl e \<Rightarrow> (Rejected e, st)
      | Inr key \<Rightarrow>
          (let st1 = (if length (cache st) \<ge> maxSize st \<and> \<not> has (cache st) key
                      then evictLRU st else st)
           in (Fulfilled (),
               st1\<lparr>cache := AList.update key
                       \<lparr>content = c, lastAccessed = now, accessCount = 1\<rparr> (cache st1)\<rparr>)))"

definition TextLayerCache_clear :: "'c text_layer_cache \<Rightarrow> 'c text_layer_cache" where
  "TextLayerCache_clear st = st\<lparr>cache := [], hitCount := 0, missCount := 0\<rparr>"

text \<open>\<open>getStats()\<close> without \<open>hitRate\<close>, a floating-point quotient of the two counters.\<close>

record cache_stats =
  stats_size :: nat
  stats_maxSize :: nat
  totalRequests :: nat
  stats_hitCount :: nat
  stats_missCount :: nat

definition TextLayerCache_getStats :: "'c text_layer_cache \<Rightarrow> cache_stats" where
  "TextLayerCache_getStats st =
     \<lparr>stats_size = length (cache st), stats_maxSize = maxSize st,
      totalRequests = hitCount st + missCount st,
      stats_hitCount = hitCount st, stats_missCount = missCount st\<rparr>"

text \<open>A call on the store, with the clock reading it sees, and a sequence of calls.\<close>

datatype 'c call = Get source number | Set source number 'c | Clear

fun perform :: "digest \<Rightarrow> int \<times> 'c call \<Rightarrow> 'c text_layer_cache \<Rightarrow> 'c text_layer_cache" where
  "perform H (now, Get source p) st = snd (TextLayerCache_get H now source p st)"
| "perform H (now, Set source p c) st = snd (TextLayerCache_set H now source p c st)"
| "perform H (now, Clear) st = TextLayerCache_clear st"

fun perform_all ::
  "digest \<Rightarrow> (int \<times> 'c call) list \<Rightarrow> 'c text_layer_cache \<Rightarrow> 'c text_layer_cache" where
  "perform_all H [] st = st"
| "perform_all H (c # cs) st = perform_all H cs (perform H c st)"

section \<open>Persistent store (services/indexedDbCache.ts)\<close>

subsection \<open>Synchronous key derivation\<close>

definition digit36 :: "int \<Rightarrow> char" where
  "digit36 d = (if d < 10 then char_of (48 + d) else char_of (87 + d))"

function digits36 :: "int \<Rightarrow> string" where
  "digits36 n = (if n < 36 then [digit36 n] else digits36 (n div 36) @ [digit36 (n mod 36)])"
  by pat_completeness auto
termination
  by (relation "measure nat") auto

declare digits36.simps [simp del]

text \<open>\<open>hash.toString(36)\<close> of a 32-bit signed integer.\<close>

definition toString36 :: "int \<Rightarrow> string" where
  "toString36 i = (if i < 0 then CHR ''-'' # digits36 (- i) else digits36 i)"

text \<open>
  One round of the rolling hash, \<open>hash = (hash << 5) - hash + x; hash = hash & hash\<close>.
  The bitwise operators work on 32-bit integers and the sum in between is exact, so the
  round is arithmetic modulo \<open>2^32\<close>; \<open>sint\<close> reads the result as the signed number
  JavaScript holds.
\<close>

definition hash_step :: "32 word \<Rightarrow> 32 word \<Rightarrow> 32 word" where
  "hash_step hash x = push_bit 5 hash - hash + x"

definition fastHashString :: "string \<Rightarrow> string" where
  "fastHashString str =
     toString36 (sint (foldl (\<lambda>hash c. hash_step hash (of_nat (of_char c))) 0 str))"

text \<open>
  The elements of \<open>new Uint32Array(buffer)\<close>: four bytes each, little-endian as on the
  platforms browsers run on. The constructor throws a \<open>RangeError\<close> unless the byte length
  of the buffer is a multiple of four; \<open>fastHashArrayBuffer\<close> does not catch it.
\<close>

fun uint32_elements :: "8 word list \<Rightarrow> 32 word list" where
  "uint32_elements (b0 # b1 # b2 # b3 # rest) =
     (ucast b0 + push_bit 8 (ucast b1) + push_bit 16 (ucast b2) + push_bit 24 (ucast b3))
       # uint32_elements rest"
| "uint32_elements _ = []"

definition new_Uint32Array :: "8 word list \<Rightarrow> js_error + 32 word list" where
  "new_Uint32Array buffer =
     (if length buffer mod 4 \<noteq> 0
      then Inl (RangeError ''byte length of Uint32Array should be a multiple of 4'')
      else Inr (uint32_elements buffer))"

definition fastHashArrayBuffer :: "8 word list \<Rightarrow> js_error + string" where
  "fastHashArrayBuffer buffer =
     (case new_Uint32Array buffer of
        Inl e \<Rightarrow> Inl e
      | Inr view \<Rightarrow>
          (let sampleSize = min (length view) 100;
               hash = foldl hash_step 0 (take sampleSize view)
           in Inr (toString36 (sint hash) @ ''_'' @ digits (int (length buffer)))))"

definition fastHashUint8Array :: "8 word list \<Rightarrow> string" where
  "fastHashUint8Array array =
     (let sampleSize = min (length array) 400;
          hash = foldl (\<lambda>hash b. hash_step hash (ucast b)) 0 (take sampleSize array)
      in toString36 (sint hash) @ ''_'' @ digits (int (length array)))"

definition sourceKeySync :: "source \<Rightarrow> js_error + string" where
  "sourceKeySync source =
     (case source of
        SNull \<Rightarrow> Inr ''null''
      | SString s \<Rightarrow> Inr s
      | SArrayBuffer bytes \<Rightarrow> fastHashArrayBuffer bytes
      | SUint8Array elems buffer \<Rightarrow> Inr (fastHashUint8Array elems)
      | SDocument d \<Rightarrow>
          Inr (''doc:'' @
            (case fingerprints d of
               Some fps \<Rightarrow> first_or_unknown fps
             | None \<Rightarrow>
                 (case fingerprint d of
                    Some s \<Rightarrow> s
                  | None \<Rightarrow>
                      (case pdfInfo_fingerprints d of
                         Some fps \<Rightarrow> first_or_unknown fps
                       | None \<Rightarrow> ''unknown''))))
      | SObject serialized \<Rightarrow>
          (case serialized of Inl e \<Rightarrow> Inl e | Inr str \<Rightarrow> Inr (fastHashString str)))"

text \<open>\<open>generateCacheKeySync\<close>: \<open>Inl\<close> is the exception the call throws.\<close>

definition generateCacheKeySync :: "source \<Rightarrow> number \<Rightarrow> js_error + string" where
  "generateCacheKeySync source pageNumber =
     (case sourceKeySync source of
        Inl e \<Rightarrow> Inl e
      | Inr sk \<Rightarrow> Inr (sk @ '':'' @ toString pageNumber))"

subsection \<open>The backing engine\<close>

record 'c idb_entry = "'c cache_entry" +
  key :: string
  createdAt :: int
  expiresAt :: int

text \<open>
  What the engine does during one call of the store: whether \<open>indexedDB\<close> exists at all, and
  for each kind of request whether it succeeds or fires \<open>onerror\<close> with an error.
  \<open>Transaction\<close> stands for \<open>db.transaction(...)\<close>, which fails by throwing.
\<close>

datatype request =
  Open | Transaction | CountReq | GetReq | PutReq | DeleteReq | ClearReq | CursorReq

record engine =
  supported :: bool
  fails :: "request \<Rightarrow> js_error option"

definition working :: engine where
  "working = \<lparr>supported = True, fails = (\<lambda>r. None)\<rparr>"

text \<open>
  The object store \<open>textLayerCache\<close> is the list of its records in primary-key order
  (\<open>keyPath: 'key'\<close>, strings compared code unit by code unit). \<open>store.put\<close> overwrites the
  record with the same key or inserts at its place.
\<close>

fun put :: "'c idb_entry \<Rightarrow> 'c idb_entry list \<Rightarrow> 'c idb_entry list" where
  "put e [] = [e]"
| "put e (x # xs) =
     (if key e = key x then e # xs
      else if key e < key x then e # x # xs
      else x # put e xs)"

definition lookup :: "string \<Rightarrow> 'c idb_entry list \<Rightarrow> 'c idb_entry option" where
  "lookup k store = find (\<lambda>e. key e = k) store"

definition delete_key :: "string \<Rightarrow> 'c idb_entry list \<Rightarrow> 'c idb_entry list" where
  "delete_key k store = filter (\<lambda>e. key e \<noteq> k) store"

text \<open>
  A cursor on the index \<open>lastAccessed\<close> visits the records by ascending last-accessed
  time, and records with equal times in primary-key order: a stable sort of the store.
\<close>

definition index_lastAccessed :: "'c idb_entry list \<Rightarrow> 'c idb_entry list" where
  "index_lastAccessed store = sort_key lastAccessed store"

subsection \<open>The store object\<close>

text \<open>
  The fields of \<open>IndexedDbCache\<close>, together with the database it opens. \<open>db\<close> says whether
  \<open>this.db\<close> is set; \<open>initPromise\<close> is the settled \<open>this.initPromise\<close>, if any; \<open>timers\<close>
  counts the \<open>setTimeout\<close> callbacks scheduled for \<open>processDeferredOperations\<close>.

  \<open>evictions\<close> holds the read-write transactions that \<open>evictOldest\<close> has opened and the
  engine has not run yet, each with its \<open>count\<close>. \<open>evictIfNeeded\<close> does not wait for its
  count request: it only installs \<open>onsuccess\<close> and returns, so \<open>set\<close> opens its own
  read-write transaction first, and the transaction of \<open>evictOldest\<close>, opened later from
  the callback, runs after it. Transactions on one object store run in the order they were
  opened, so these run before the transaction of any later call.
\<close>

record 'c indexed_db_cache = counters +
  objectStore :: "'c idb_entry list"
  db :: bool
  initPromise :: "unit settled option"
  expirationMs :: int
  maxEntries :: nat
  cachedCount :: nat
  deferredOperations :: "string list"
  processingDeferred :: bool
  timers :: nat
  evictions :: "nat list"

text \<open>The constructor, over a database with the given records.\<close>

definition new_IndexedDbCache :: "int \<Rightarrow> nat \<Rightarrow> 'c idb_entry list \<Rightarrow> 'c indexed_db_cache" where
  "new_IndexedDbCache expirationDays maxEntriesOpt records =
     \<lparr>hitCount = 0, missCount = 0, objectStore = records, db = False, initPromise = None,
      expirationMs = expirationDays * 24 * 60 * 60 * 1000, maxEntries = maxEntriesOpt,
      cachedCount = 0, deferredOperations = [], processingDeferred = False, timers = 0,
      evictions = []\<rparr>"

text \<open>
  The cursor loop of \<open>evictOldest(count)\<close>, with \<open>limit\<close> for its argument: delete the record under the cursor and
  advance while \<open>deletedCount < count\<close>.
\<close>

fun evict_cursor ::
  "'c idb_entry list \<Rightarrow> nat \<Rightarrow> nat \<Rightarrow> 'c idb_entry list \<Rightarrow> 'c idb_entry list \<times> nat" where
  "evict_cursor [] limit deletedCount store = (store, deletedCount)"
| "evict_cursor (e # rest) limit deletedCount store =
     (if deletedCount < limit
      then evict_cursor rest limit (deletedCount + 1) (delete_key (key e) store)
      else (store, deletedCount))"

text \<open>
  The transaction of \<open>evictOldest(count)\<close> when it runs. A failing cursor request rejects
  a promise nobody handles and leaves the store as it is.
  \<open>Math.max(0, cachedCount - deletedCount)\<close> is subtraction on \<open>nat\<close>.
\<close>

definition evictOldest :: "engine \<Rightarrow> nat \<Rightarrow> 'c indexed_db_cache \<Rightarrow> 'c indexed_db_cache" where
  "evictOldest E limit st =
     (case fails E CursorReq of
        Some e \<Rightarrow> st
      | None \<Rightarrow>
          (let (store, deletedCount) =
                 evict_cursor (index_lastAccessed (objectStore st)) limit 0 (objectStore st)
           in st\<lparr>objectStore := store, cachedCount := cachedCount st - deletedCount\<rparr>))"

text \<open>The engine runs the transactions opened earlier before a new one.\<close>

definition settle :: "engine \<Rightarrow> 'c indexed_db_cache \<Rightarrow> 'c indexed_db_cache" where
  "settle E st = foldl (\<lambda>s limit. evictOldest E limit s) (st\<lparr>evictions := []\<rparr>) (evictions st)"

text \<open>
  \<open>initialize\<close> with \<open>initializeCacheCount\<close>: a thrown \<open>db.transaction\<close> is caught there
  and the counter set to zero; a failed count request rejects the initialization, with
  \<open>this.db\<close> already set.
\<close>

definition initialize :: "engine \<Rightarrow> 'c indexed_db_cache \<Rightarrow> unit settled \<times> 'c indexed_db_cache" where
  "initialize E st =
     (if \<not> supported E then (Rejected (Error ''IndexedDB not supported''), st)
      else case fails E Open of
        Some e \<Rightarrow> (Rejected e, st)
      | None \<Rightarrow>
          (let st1 = st\<lparr>db := True\<rparr>
           in case fails E Transaction of
                Some e \<Rightarrow> (Fulfilled (), st1\<lparr>cachedCount := 0\<rparr>)
              | None \<Rightarrow>
                  (case fails E CountReq of
                     Some e \<Rightarrow> (Rejected e, st1)
                   | None \<Rightarrow> (Fulfilled (), st1\<lparr>cachedCount := length (objectStore st1)\<rparr>))))"

definition ensureInitialized ::
  "engine \<Rightarrow> 'c indexed_db_cache \<Rightarrow> unit settled \<times> 'c indexed_db_cache" where
  "ensureInitialized E st =
     (if db st then (Fulfilled (), st)
      else case initPromise st of
        Some r \<Rightarrow> (r, st)
      | None \<Rightarrow> (let (r, st1) = initialize E st in (r, st1\<lparr>initPromise := Some r\<rparr>)))"

text \<open>\<open>Set.add\<close>: a set of strings in insertion order.\<close>

definition set_add :: "string \<Rightarrow> string list \<Rightarrow> string list" where
  "set_add x xs = (if x \<in> set xs then xs else xs @ [x])"

definition scheduleDeferredProcessing :: "'c indexed_db_cache \<Rightarrow> 'c indexed_db_cache" where
  "scheduleDeferredProcessing st =
     (if processingDeferred st then st else st\<lparr>timers := timers st + 1\<rparr>)"

definition deferredUpdateAccessStats :: "string \<Rightarrow> 'c indexed_db_cache \<Rightarrow> 'c indexed_db_cache" where
  "deferredUpdateAccessStats k st =
     scheduleDeferredProcessing
       (st\<lparr>deferredOperations := set_add (''access:'' @ k) (deferredOperations st)\<rparr>)"

definition deferredRemoveExpiredEntry :: "string \<Rightarrow> 'c indexed_db_cache \<Rightarrow> 'c indexed_db_cache" where
  "deferredRemoveExpiredEntry k st =
     scheduleDeferredProcessing
       (st\<lparr>deferredOperations := set_add (''remove:'' @ k) (deferredOperations st)\<rparr>)"

definition miss :: "'c indexed_db_cache \<Rightarrow> 'c indexed_db_cache" where
  "miss st = st\<lparr>missCount := missCount st + 1\<rparr>"

text \<open>
  \<open>get(source, pageNumber)\<close>. The body is a \<open>try\<close> block whose \<open>catch\<close> counts a miss,
  warns and returns \<open>null\<close>. It catches what is thrown or awaited inside the block: a failed
  initialization, an exception of \<open>generateCacheKeySync\<close> or of \<open>db.transaction\<close>. The
  promise built around the request is returned without \<open>await\<close>, so when the request fires
  \<open>onerror\<close> and the handler calls \<open>reject(request.error)\<close>, the promise of \<open>get\<close> rejects.
  \<open>now1\<close> and \<open>now2\<close> are the two readings of \<open>Date.now()\<close> in \<open>onsuccess\<close>.
\<close>

definition IndexedDbCache_get ::
  "engine \<Rightarrow> int \<Rightarrow> int \<Rightarrow> source \<Rightarrow> number \<Rightarrow> 'c indexed_db_cache
     \<Rightarrow> 'c option settled \<times> 'c indexed_db_cache" where
  "IndexedDbCache_get E now1 now2 source pageNumber st =
     (case ensureInitialized E st of
        (Rejected e, st1) \<Rightarrow> (Fulfilled None, miss st1)
      | (Fulfilled u, st1) \<Rightarrow>
          if \<not> db st1 then (Fulfilled None, st1)
          else case generateCacheKeySync source pageNumber of
            Inl e \<Rightarrow> (Fulfilled None, miss st1)
          | Inr k \<Rightarrow>
              (case fails E Transaction of
                 Some e \<Rightarrow> (Fulfilled None, miss st1)
               | None \<Rightarrow>
                   (let st2 = settle E st1
                    in case fails E GetReq of
                         Some e \<Rightarrow> (Rejected e, miss st2)
                       | None \<Rightarrow>
                           (case lookup k (objectStore st2) of
                              Some entry \<Rightarrow>
                                if expiresAt entry > now1
                                then (Fulfilled (Some (content entry)),
                                      deferredUpdateAccessStats (key entry)
                                        (st2\<lparr>hitCount := hitCount st2 + 1\<rparr>))
                                else (Fulfilled None,
                                      if expiresAt entry \<le> now2
                                      then deferredRemoveExpiredEntry (key entry) (miss st2)
                                      else miss st2)
                            | None \<Rightarrow> (Fulfilled None, miss st2)))))"

text \<open>
  \<open>evictIfNeeded\<close>: opens a read-only transaction and a count request. When the count
  arrives and is at least \<open>maxEntries\<close>, the callback calls
  \<open>evictOldest(Math.floor(maxEntries * 0.1))\<close>, which opens its transaction; for a
  natural number the floor is the quotient by ten.
\<close>

definition evictIfNeeded :: "engine \<Rightarrow> 'c indexed_db_cache \<Rightarrow> 'c indexed_db_cache" where
  "evictIfNeeded E st =
     (if \<not> db st then st
      else case fails E Transaction of
        Some e \<Rightarrow> st
      | None \<Rightarrow>
          (let st1 = settle E st
           in case fails E CountReq of
                Some e \<Rightarrow> st1
              | None \<Rightarrow>
                  if length (objectStore st1) \<ge> maxEntries st1
                  then st1\<lparr>evictions := evictions st1 @ [maxEntries st1 div 10]\<rparr>
                  else st1))"

text \<open>
  \<open>set(source, pageNumber, content)\<close>, with \<open>now\<close> the reading of \<open>Date.now()\<close>. The
  promise resolves when the \<open>put\<close> request succeeds; the eviction that \<open>evictIfNeeded\<close>
  has started is then still in \<open>evictions\<close>.
\<close>

definition IndexedDbCache_set ::
  "engine \<Rightarrow> int \<Rightarrow> source \<Rightarrow> number \<Rightarrow> 'c \<Rightarrow> 'c indexed_db_cache
     \<Rightarrow> unit settled \<times> 'c indexed_db_cache" where
  "IndexedDbCache_set E now source pageNumber c st =
     (case ensureInitialized E st of
        (Rejected e, st1) \<Rightarrow> (Fulfilled (), st1)
      | (Fulfilled u, st1) \<Rightarrow>
          if \<not> db st1 then (Fulfilled (), st1)
          else case generateCacheKeySync source pageNumber of
            Inl e \<Rightarrow> (Fulfilled (), st1)
          | Inr k \<Rightarrow>
              (let entry = \<lparr>content = c, lastAccessed = now, accessCount = 1, key = k,
                            createdAt = now, expiresAt = now + expirationMs st1\<rparr>;
                   st2 = evictIfNeeded E st1
               in case fails E Transaction of
                    Some e \<Rightarrow> (Fulfilled (), st2)
                  | None \<Rightarrow>
                      (case fails E GetReq of
                         Some e \<Rightarrow> (Rejected e, st2)
                       | None \<Rightarrow>
                           (let isNewEntry = (lookup k (objectStore st2) = None)
                            in case fails E PutReq of
                                 Some e \<Rightarrow> (Rejected e, st2)
                               | None \<Rightarrow>
                                   (Fulfilled (),
                                    st2\<lparr>objectStore := put entry (objectStore st2),
                                        cachedCount := (if isNewEntry then cachedCount st2 + 1
                                                        else cachedCount st2)\<rparr>)))))"

definition IndexedDbCache_clear ::
  "engine \<Rightarrow> 'c indexed_db_cache \<Rightarrow> unit settled \<times> 'c indexed_db_cache" where
  "IndexedDbCache_clear E st =
     (case ensureInitialized E st of
        (Rejected e, st1) \<Rightarrow> (Fulfilled (), st1)
      | (Fulfilled u, st1) \<Rightarrow>
          if \<not> db st1 then (Fulfilled (), st1)
          else case fails E Transaction of
            Some e \<Rightarrow> (Fulfilled (), st1)
          | None \<Rightarrow>
              (let st2 = settle E st1
               in case fails E ClearReq of
                    Some e \<Rightarrow> (Rejected e, st2)
                  | None \<Rightarrow>
                      (Fulfilled (),
                       st2\<lparr>objectStore := [], hitCount := 0, missCount := 0,
                           cachedCount := 0\<rparr>)))"

definition IndexedDbCache_getStats :: "'c indexed_db_cache \<Rightarrow> cache_stats" where
  "IndexedDbCache_getStats st =
     \<lparr>stats_size = cachedCount st, stats_maxSize = maxEntries st,
      totalRequests = hitCount st + missCount st,
      stats_hitCount = hitCount st, stats_missCount = missCount st\<rparr>"

text \<open>\<open>getStatsAsync()\<close>: the size is the result of a count request on the store.\<close>

definition IndexedDbCache_getStatsAsync ::
  "engine \<Rightarrow> 'c indexed_db_cache \<Rightarrow> cache_stats settled \<times> 'c indexed_db_cache" where
  "IndexedDbCache_getStatsAsync E st =
     (case ensureInitialized E st of
        (Rejected e, st1) \<Rightarrow> (Fulfilled (IndexedDbCache_getStats st1), st1)
      | (Fulfilled u, st1) \<Rightarrow>
          if \<not> db st1 then (Fulfilled (IndexedDbCache_getStats st1), st1)
          else case fails E Transaction of
            Some e \<Rightarrow> (Fulfilled (IndexedDbCache_getStats st1), st1)
          | None \<Rightarrow>
              (let st2 = settle E st1
               in case fails E CountReq of
                    Some e \<Rightarrow> (Rejected e, st2)
                  | None \<Rightarrow>
                      (Fulfilled
                         \<lparr>stats_size = length (objectStore st2), stats_maxSize = maxEntries st2,
                          totalRequests = hitCount st2 + missCount st2,
                          stats_hitCount = hitCount st2, stats_missCount = missCount st2\<rparr>,
                       st2)))"

text \<open>The cursor loop of \<open>cleanup\<close>, over the store in primary-key order.\<close>

fun cleanup_cursor ::
  "int \<Rightarrow> 'c idb_entry list \<Rightarrow> nat \<Rightarrow> 'c idb_entry list \<Rightarrow> 'c idb_entry list \<times> nat" where
  "cleanup_cursor now [] deletedCount store = (store, deletedCount)"
| "cleanup_cursor now (e # rest) deletedCount store =
     (if expiresAt e < now
      then cleanup_cursor now rest (deletedCount + 1) (delete_key (key e) store)
      else cleanup_cursor now rest deletedCount store)"

definition IndexedDbCache_cleanup ::
  "engine \<Rightarrow> int \<Rightarrow> 'c indexed_db_cache \<Rightarrow> nat settled \<times> 'c indexed_db_cache" where
  "IndexedDbCache_cleanup E now st =
     (case ensureInitialized E st of
        (Rejected e, st1) \<Rightarrow> (Fulfilled 0, st1)
      | (Fulfilled u, st1) \<Rightarrow>
          if \<not> db st1 then (Fulfilled 0, st1)
          else case fails E Transaction of
            Some e \<Rightarrow> (Fulfilled 0, st1)
          | None \<Rightarrow>
              (let st2 = settle E st1
               in case fails E CursorReq of
                    Some e \<Rightarrow> (Rejected e, st2)
                  | None \<Rightarrow>
                      (let (store, deletedCount) =
                             cleanup_cursor now (objectStore st2) 0 (objectStore st2)
                       in (Fulfilled deletedCount,
                           st2\<lparr>objectStore := store,
                               cachedCount := cachedCount st2 - deletedCount\<rparr>))))"

text \<open>
  \<open>processDeferredOperations\<close>, the timer callback, with \<open>batchUpdateAccessStats\<close> and
  \<open>batchRemoveEntries\<close>. Each batch is one transaction; a request that fails in it has no
  handler, which aborts the transaction and undoes its writes.
\<close>

definition batchUpdateAccessStats ::
  "engine \<Rightarrow> int \<Rightarrow> string list \<Rightarrow> 'c indexed_db_cache \<Rightarrow> 'c indexed_db_cache" where
  "batchUpdateAccessStats E now keys st =
     (case fails E Transaction of
        Some e \<Rightarrow> st
      | None \<Rightarrow>
          (let st1 = settle E st
           in if fails E GetReq \<noteq> None \<or> fails E PutReq \<noteq> None then st1
              else st1\<lparr>objectStore :=
                     foldl (\<lambda>store k.
                              case lookup k store of
                                Some entry \<Rightarrow>
                                  put (entry\<lparr>lastAccessed := now,
                                             accessCount := accessCount entry + 1\<rparr>) store
                              | None \<Rightarrow> store)
                       (objectStore st1) keys\<rparr>))"

definition batchRemoveEntries ::
  "engine \<Rightarrow> string list \<Rightarrow> 'c indexed_db_cache \<Rightarrow> 'c indexed_db_cache" where
  "batchRemoveEntries E keys st =
     (case fails E Transaction of
        Some e \<Rightarrow> st
      | None \<Rightarrow>
          (let st1 = settle E st;
               st2 = st1\<lparr>cachedCount := cachedCount st1 - length keys\<rparr>
           in if fails E DeleteReq \<noteq> None then st2
              else st2\<lparr>objectStore := foldl (\<lambda>store k. delete_key k store)
                                          (objectStore st2) keys\<rparr>))"

definition startsWith :: "string \<Rightarrow> string \<Rightarrow> bool" where
  "startsWith s p = (take (length p) s = p)"

definition processDeferredOperations ::
  "engine \<Rightarrow> int \<Rightarrow> 'c indexed_db_cache \<Rightarrow> 'c indexed_db_cache" where
  "processDeferredOperations E now st =
     (if processingDeferred st \<or> deferredOperations st = [] then st
      else
        (let operations = deferredOperations st;
             st1 = st\<lparr>deferredOperations := []\<rparr>
         in if \<not> db st1 then st1
            else
              (let accessOps = filter (\<lambda>op. startsWith op ''access:'') operations;
                   removeOps = filter (\<lambda>op. startsWith op ''remove:'') operations;
                   st2 = (if accessOps \<noteq> []
                          then batchUpdateAccessStats E now (map (drop 7) accessOps) st1
                          else st1)
               in if removeOps \<noteq> []
                  then batchRemoveEntries E (map (drop 7) removeOps) st2
                  else st2)))"

section \<open>Preload (utils/preloadCache.ts)\<close>

text \<open>
  \<open>PreloadOptions\<close>: the \<open>onProgress\<close> callback, if one is given, and \<open>skipCached\<close>. A
  callback is a function of \<open>loaded\<close> and \<open>total\<close> that returns the exception it throws,
  if it throws. The \<open>timeout\<close> only decides how the acquisition of the document ends,
  which belongs to the environment below.
\<close>

record preload_options =
  onProgress :: "(nat \<Rightarrow> nat \<Rightarrow> js_error option) option"
  skipCached :: bool

record page_error =
  page :: number
  error :: js_error

record preload_result =
  success :: bool
  cached :: nat
  failed :: nat
  totalPages :: nat
  errors :: "page_error list option"

text \<open>The \<open>pages\<close> argument as the function finds it at run time.\<close>

datatype pages_arg = NotAnArray | Pages "number list"

text \<open>
  What \<open>preloadTextLayerCache\<close> does to the outside, in order: \<open>getDocument\<close>, a probe of
  the cache, the extraction of a page (\<open>doc.getPage\<close> and \<open>page.getTextContent\<close>), a write
  to the cache, a call of \<open>onProgress\<close>, a warning on the console.
\<close>

datatype event =
    GetDocument
  | CacheGet number
  | GetPage number
  | CacheSet number
  | OnProgress nat nat
  | Warn

text \<open>The module's singleton \<open>textLayerCache\<close> and the trace of events so far.\<close>

record 'c world =
  textLayerCache :: "'c text_layer_cache"
  trace :: "event list"

text \<open>
  The environment of one call: the digest of the platform, how \<open>getDocument\<close> raced
  against the timeout ends (a rejection is the loading error or
  \<open>Error('Document loading timeout')\<close>), how the extraction of each page ends, the time
  at which the extraction started by the task with a given index settles, and the reading
  of \<open>Date.now()\<close> after a given number of events.
\<close>

record 'c host =
  digest_fn :: digest
  getDocument :: "js_error + document_proxy"
  getTextContent :: "number \<Rightarrow> js_error + 'c"
  settles_at :: "nat \<Rightarrow> int"
  clock :: "nat \<Rightarrow> int"

text \<open>\<open>!source\<close> holds of \<open>null\<close> and of the empty string.\<close>

definition falsy :: "source \<Rightarrow> bool" where
  "falsy source = (case source of SNull \<Rightarrow> True | SString s \<Rightarrow> s = [] | _ \<Rightarrow> False)"

text \<open>\<open>!Number.isInteger(page) || page < 1\<close>\<close>

definition invalidPage :: "number \<Rightarrow> bool" where
  "invalidPage p =
     (case p of
        Integer neg m \<Rightarrow> safe_value neg m < 1
      | Huge neg s \<Rightarrow> neg
      | NonInteger s \<Rightarrow> True)"

text \<open>
  \<open>page <= maxPages\<close> and \<open>page > maxPages\<close>, which only validated pages reach; the
  page count of a document is far below \<open>2^53\<close>.
\<close>

definition page_le :: "number \<Rightarrow> nat \<Rightarrow> bool" where
  "page_le p n =
     (case p of
        Integer neg m \<Rightarrow> safe_value neg m \<le> int n
      | Huge neg s \<Rightarrow> neg
      | NonInteger s \<Rightarrow> False)"

definition page_gt :: "number \<Rightarrow> nat \<Rightarrow> bool" where
  "page_gt p n =
     (case p of
        Integer neg m \<Rightarrow> safe_value neg m > int n
      | Huge neg s \<Rightarrow> \<not> neg
      | NonInteger s \<Rightarrow> False)"

fun message :: "js_error \<Rightarrow> string" where
  "message (Error m) = m"
| "message (RangeError m) = m"
| "message (TypeError m) = m"
| "message (DOMException m) = m"

text \<open>The \<open>catch\<close> around the body of \<open>preloadTextLayerCache\<close>.\<close>

definition load_failure :: "js_error \<Rightarrow> js_error" where
  "load_failure e = Error (''Failed to load PDF document: '' @ message e)"

definition log_event :: "event \<Rightarrow> 'c world \<Rightarrow> 'c world" where
  "log_event ev w = w\<lparr>trace := trace w @ [ev]\<rparr>"

text \<open>
  The loop over \<open>validPages\<close> under \<open>skipCached\<close>, with its accumulators \<open>uncachedPages\<close>
  and the counter of pages found. A rejected \<open>textLayerCache.get\<close> leaves the loop for the
  outer \<open>catch\<close>.
\<close>

fun probe ::
  "'c host \<Rightarrow> source \<Rightarrow> number list \<Rightarrow> number list \<Rightarrow> nat \<Rightarrow> 'c world
     \<Rightarrow> (js_error + number list \<times> nat) \<times> 'c world" where
  "probe env source [] uncachedPages found w = (Inr (uncachedPages, found), w)"
| "probe env source (pageNum # rest) uncachedPages found w =
     (case TextLayerCache_get (digest_fn env) (clock env (length (trace w))) source pageNum
             (textLayerCache w) of
        (Rejected e, c) \<Rightarrow> (Inl e, log_event (CacheGet pageNum) (w\<lparr>textLayerCache := c\<rparr>))
      | (Fulfilled None, c) \<Rightarrow>
          probe env source rest (uncachedPages @ [pageNum]) found
            (log_event (CacheGet pageNum) (w\<lparr>textLayerCache := c\<rparr>))
      | (Fulfilled (Some x), c) \<Rightarrow>
          probe env source rest uncachedPages (found + 1)
            (log_event (CacheGet pageNum) (w\<lparr>textLayerCache := c\<rparr>)))"

text \<open>
  The tasks given to \<open>Promise.allSettled\<close>: what they have accumulated. \<open>settled_ok\<close> has
  one flag per settled task, \<open>True\<close> for \<open>fulfilled\<close>.
\<close>

record tasks =
  completed :: nat
  settled_ok :: "bool list"
  page_errors :: "page_error list"

text \<open>\<open>if (onProgress) onProgress(completed, pagesToLoad.length)\<close>, with what it throws.\<close>

definition call_onProgress ::
  "preload_options \<Rightarrow> nat \<Rightarrow> nat \<Rightarrow> 'c world \<Rightarrow> js_error option \<times> 'c world" where
  "call_onProgress options n toLoad w =
     (case onProgress options of
        None \<Rightarrow> (None, w)
      | Some callback \<Rightarrow> (callback n toLoad, log_event (OnProgress n toLoad) w))"

text \<open>
  The \<open>catch\<close> block of a task: count, record the page with the error, report, rethrow.
  The task is rejected whether or not the callback throws here.
\<close>

definition task_fails ::
  "preload_options \<Rightarrow> nat \<Rightarrow> number \<Rightarrow> js_error \<Rightarrow> tasks \<Rightarrow> 'c world \<Rightarrow> tasks \<times> 'c world" where
  "task_fails options toLoad pageNum e t w =
     (t\<lparr>completed := completed t + 1, settled_ok := settled_ok t @ [False],
        page_errors := page_errors t @ [\<lparr>page = pageNum, error = e\<rparr>]\<rparr>,
      snd (call_onProgress options (completed t + 1) toLoad w))"

text \<open>
  A task from the moment its extraction settles: write the text to the cache, count,
  report. What rejects or throws on the way, the callback included, lands in the \<open>catch\<close>
  block; after a throwing callback \<open>completed\<close> has been counted twice.
\<close>

definition finish_page ::
  "'c host \<Rightarrow> preload_options \<Rightarrow> source \<Rightarrow> nat \<Rightarrow> number \<Rightarrow> tasks \<Rightarrow> 'c world
     \<Rightarrow> tasks \<times> 'c world" where
  "finish_page env options source toLoad pageNum t w =
     (case getTextContent env pageNum of
        Inl e \<Rightarrow> task_fails options toLoad pageNum e t w
      | Inr textContent \<Rightarrow>
          (case TextLayerCache_set (digest_fn env) (clock env (length (trace w))) source
                  pageNum textContent (textLayerCache w) of
             (Rejected e, c) \<Rightarrow>
               task_fails options toLoad pageNum e t
                 (log_event (CacheSet pageNum) (w\<lparr>textLayerCache := c\<rparr>))
           | (Fulfilled u, c) \<Rightarrow>
               (let t1 = t\<lparr>completed := completed t + 1\<rparr>
                in case call_onProgress options (completed t1) toLoad
                          (log_event (CacheSet pageNum) (w\<lparr>textLayerCache := c\<rparr>)) of
                     (None, w1) \<Rightarrow> (t1\<lparr>settled_ok := settled_ok t1 @ [True]\<rparr>, w1)
                   | (Some e, w1) \<Rightarrow> task_fails options toLoad pageNum e t1 w1)))"

fun finish_pages ::
  "'c host \<Rightarrow> preload_options \<Rightarrow> source \<Rightarrow> nat \<Rightarrow> number list \<Rightarrow> tasks \<Rightarrow> 'c world
     \<Rightarrow> tasks \<times> 'c world" where
  "finish_pages env options source toLoad [] t w = (t, w)"
| "finish_pages env options source toLoad (pageNum # rest) t w =
     (case finish_page env options source toLoad pageNum t w of
        (t1, w1) \<Rightarrow> finish_pages env options source toLoad rest t1 w1)"

text \<open>
  The pages in the order in which their tasks complete: by the time their extraction
  settles, tasks that settle together in the order of \<open>pagesToLoad\<close>.
\<close>

definition completion_order :: "'c host \<Rightarrow> number list \<Rightarrow> number list" where
  "completion_order env pagesToLoad =
     map (\<lambda>i. pagesToLoad ! i) (sort_key (settles_at env) [0..<length pagesToLoad])"

text \<open>
  \<open>Promise.allSettled(pagesToLoad.map(async ...))\<close>: every task runs up to its first
  \<open>await\<close> when \<open>map\<close> calls it, so the pages are requested from the document in the
  order of \<open>pagesToLoad\<close>; the tasks then complete one by one in the order the environment
  settles their extractions. The write to the cache and the counting of a task are taken
  as one step: between them no other task can reach the counters the step changes.
\<close>

definition load_pages ::
  "'c host \<Rightarrow> preload_options \<Rightarrow> source \<Rightarrow> number list \<Rightarrow> 'c world \<Rightarrow> tasks \<times> 'c world" where
  "load_pages env options source pagesToLoad w =
     finish_pages env options source (length pagesToLoad) (completion_order env pagesToLoad)
       \<lparr>completed = 0, settled_ok = [], page_errors = []\<rparr>
       (foldl (\<lambda>w1 pageNum. log_event (GetPage pageNum) w1) w pagesToLoad)"

text \<open>The \<open>try\<close> block of \<open>preloadTextLayerCache\<close>, entered with validated arguments.\<close>

definition preload_body ::
  "'c host \<Rightarrow> preload_options \<Rightarrow> source \<Rightarrow> number list \<Rightarrow> 'c world
     \<Rightarrow> preload_result settled \<times> 'c world" where
  "preload_body env options source pages w =
     (case (case source of
              SDocument d \<Rightarrow> (Inr d, w)
            | _ \<Rightarrow> (getDocument env, log_event GetDocument w)) of
        (Inl e, w1) \<Rightarrow> (Rejected (load_failure e), w1)
      | (Inr doc, w1) \<Rightarrow>
          (let maxPages = numPages doc;
               validPages = filter (\<lambda>p. page_le p maxPages) pages;
               outOfRangePages = filter (\<lambda>p. page_gt p maxPages) pages;
               w2 = (if outOfRangePages \<noteq> [] then log_event Warn w1 else w1)
           in case (if skipCached options then probe env source validPages [] 0 w2
                    else (Inr (validPages, 0), w2)) of
                (Inl e, w3) \<Rightarrow> (Rejected (load_failure e), w3)
              | (Inr (pagesToLoad, found), w3) \<Rightarrow>
                  if pagesToLoad = []
                  then (Fulfilled \<lparr>success = True, cached = length validPages, failed = 0,
                                   totalPages = length pages, errors = None\<rparr>, w3)
                  else
                    (case load_pages env options source pagesToLoad w3 of
                       (t, w4) \<Rightarrow>
                         (let successful = length (filter (\<lambda>ok. ok) (settled_ok t));
                              rejected = length (filter (\<lambda>ok. \<not> ok) (settled_ok t))
                          in (Fulfilled
                                \<lparr>success = (rejected = 0),
                                 cached = successful
                                   + (if skipCached options
                                      then length validPages - length pagesToLoad else 0),
                                 failed = rejected,
                                 totalPages = length pages,
                                 errors = (if page_errors t \<noteq> [] then Some (page_errors t)
                                           else None)\<rparr>, w4)))))"

text \<open>\<open>preloadTextLayerCache(source, pages, options)\<close>\<close>

definition preloadTextLayerCache ::
  "'c host \<Rightarrow> preload_options \<Rightarrow> source \<Rightarrow> pages_arg \<Rightarrow> 'c world
     \<Rightarrow> preload_result settled \<times> 'c world" where
  "preloadTextLayerCache env options source pages w =
     (if falsy source
      then (Rejected (Error ''Source is required for preloading TextLayer cache''), w)
      else case pages of
        NotAnArray \<Rightarrow>
          (Rejected (Error ''Pages array must contain at least one page number''), w)
      | Pages ps \<Rightarrow>
          if ps = []
          then (Rejected (Error ''Pages array must contain at least one page number''), w)
          else
            (let invalidPages = filter invalidPage ps
             in if invalidPages \<noteq> []
                then (Rejected (Error (''Invalid page numbers: ''
                                        @ join '', '' (map toString invalidPages)
                                        @ ''. Page numbers must be positive integers.'')), w)
                else preload_body env options source ps w))"

section \<open>Auxiliary notions for the proofs\<close>

text \<open>The keys of the volatile store's map are pairwise distinct, and none is empty.\<close>

definition cache_ok :: "'c text_layer_cache \<Rightarrow> bool" where
  "cache_ok st = (distinct (map fst (cache st)) \<and> [] \<notin> fst ` set (cache st))"

text \<open>A \<open>set\<close> call with its clock reading, as an element of a sequence of calls.\<close>

definition set_call :: "int \<times> source \<times> number \<times> 'c \<Rightarrow> int \<times> 'c call" where
  "set_call x = (case x of (now, source, p, c) \<Rightarrow> (now, Set source p c))"

text \<open>The map after a run of \<open>set\<close> calls on distinct keys that never reached the capacity.\<close>

definition filled :: "(int \<times> source \<times> number \<times> 'c) list \<Rightarrow> string list
    \<Rightarrow> (string \<times> 'c cache_entry) list" where
  "filled sets keys = map (\<lambda>((now, source, p, c), ck).
       (ck, \<lparr>content = c, lastAccessed = now, accessCount = 1\<rparr>)) (zip sets keys)"

text \<open>
  The records of an object store lie in strictly ascending order of their primary keys.
\<close>

definition store_ok :: "'c idb_entry list \<Rightarrow> bool" where
  "store_ok store = sorted_wrt (\<lambda>a b. key a < key b) store"

text \<open>A record written at time \<open>t\<close> under key \<open>k\<close>, for the examples.\<close>

definition record_at :: "string \<Rightarrow> int \<Rightarrow> nat idb_entry" where
  "record_at k t =
     \<lparr>content = 0, lastAccessed = t, accessCount = 1, key = k, createdAt = t,
      expiresAt = t + 1000\<rparr>"

text \<open>Twelve records, in key order and written at times 1 to 12.\<close>

definition twelve_records :: "nat idb_entry list" where
  "twelve_records =
     [record_at ''k01'' 1, record_at ''k02'' 2, record_at ''k03'' 3, record_at ''k04'' 4,
      record_at ''k05'' 5, record_at ''k06'' 6, record_at ''k07'' 7, record_at ''k08'' 8,
      record_at ''k09'' 9, record_at ''k10'' 10, record_at ''k11'' 11, record_at ''k12'' 12]"


text \<open>The error list of a preload: the pages whose extraction rejects, with the reasons.\<close>

definition failures :: "'c host \<Rightarrow> number list \<Rightarrow> page_error list" where
  "failures env ps =
     map (\<lambda>p. \<lparr>page = p, error = projl (getTextContent env p)\<rparr>)
       (filter (\<lambda>p. isl (getTextContent env p)) ps)"

text \<open>
  A document of three pages in which the extraction of page 2 rejects and the tasks
  complete in the order 3, 1, 2; the same with a platform whose digest rejects; a callback
  that throws; and the module's cache before any call. They serve the examples.
\<close>

definition three_page_host :: "nat host" where
  "three_page_host =
     \<lparr>digest_fn = Inr,
      getDocument = Inr \<lparr>numPages = 3, fingerprints = None, fingerprint = None,
                          pdfInfo_fingerprints = None\<rparr>,
      getTextContent = (\<lambda>p. if p = Integer False 2 then Inl (Error ''extraction failed'')
                            else Inr 0),
      settles_at = (\<lambda>i. if i = 2 then 1 else if i = 0 then 2 else 3),
      clock = (\<lambda>n. int n)\<rparr>"

definition no_digest_host :: "nat host" where
  "no_digest_host =
     three_page_host\<lparr>digest_fn := (\<lambda>b. Inl (TypeError ''crypto.subtle is undefined''))\<rparr>"

definition throwing_callback :: "nat \<Rightarrow> nat \<Rightarrow> js_error option" where
  "throwing_callback loaded toLoad = Some (Error ''callback failed'')"

definition silent_callback :: "nat \<Rightarrow> nat \<Rightarrow> js_error option" where
  "silent_callback loaded toLoad = None"

definition fresh_world :: "nat world" where
  "fresh_world = \<lparr>textLayerCache = new_TextLayerCache 100, trace = []\<rparr>"

text \<open>
  The states of a persistent store that the code can reach: the constructor, over a
  database whose records are in key order, then any calls of its methods, runs of the timer
  callback and of the queued evictions, whatever the engine does.
\<close>

inductive reachable :: "'c indexed_db_cache \<Rightarrow> bool" where
  created: "store_ok records \<Longrightarrow> reachable (new_IndexedDbCache expirationDays maxEntriesOpt records)"
| after_get: "reachable st \<Longrightarrow> reachable (snd (IndexedDbCache_get E now1 now2 source pageNumber st))"
| after_set: "reachable st \<Longrightarrow> reachable (snd (IndexedDbCache_set E now source pageNumber c st))"
| after_clear: "reachable st \<Longrightarrow> reachable (snd (IndexedDbCache_clear E st))"
| after_cleanup: "reachable st \<Longrightarrow> reachable (snd (IndexedDbCache_cleanup E now st))"
| after_getStatsAsync: "reachable st \<Longrightarrow> reachable (snd (IndexedDbCache_getStatsAsync E st))"
| after_timer: "reachable st \<Longrightarrow> reachable (processDeferredOperations E now st)"
| after_evictions: "reachable st \<Longrightarrow> reachable (settle E st)"

text \<open>
  What holds in every such state: the records stay in key order, and a fulfilled
  \<open>initPromise\<close> means that \<open>this.db\<close> is set.
\<close>

definition consistent :: "'c indexed_db_cache \<Rightarrow> bool" where
  "consistent st =
     (store_ok (objectStore st) \<and> (initPromise st = Some (Fulfilled ()) \<longrightarrow> db st))"

section \<open>Properties of the volatile store\<close>

text \<open>
  C10. A \<open>get\<close> of the volatile store whose key is absent changes nothing but the miss
  counter, which grows by one: the map with every entry's content, last-accessed time and
  access counter, the hit counter and the configured size stay as they were, and the call
  resolves to \<open>null\<close>.
\<close>

theorem C10_get_miss_frame:
  assumes "generateCacheKey H source pageNumber = Inr k"
    and "map_of (cache st) k = None"
  shows "TextLayerCache_get H now source pageNumber st
           = (Fulfilled None, st\<lparr>missCount := missCount st + 1\<rparr>)"
  using assms by (simp add: TextLayerCache_get_def)

text \<open>
  The theorem at a store that holds an entry under another key, read once before: the
  entry, the hit counter and the size stay as they were.
\<close>

theorem C10_get_miss_frame_witness:
  "generateCacheKey Inr (SString ''a.pdf'') (Integer False 2) = Inr ''a.pdf:2''
   \<and> map_of (cache (perform_all Inr
          [(3, Set (SString ''b.pdf'') (Integer False 1) (7::nat)),
           (4, Get (SString ''b.pdf'') (Integer False 1))]
          (new_TextLayerCache 3))) ''a.pdf:2'' = None
   \<and> TextLayerCache_get Inr 17 (SString ''a.pdf'') (Integer False 2)
        (perform_all Inr
          [(3, Set (SString ''b.pdf'') (Integer False 1) (7::nat)),
           (4, Get (SString ''b.pdf'') (Integer False 1))]
          (new_TextLayerCache 3))
       = (Fulfilled None,
          \<lparr>hitCount = 1, missCount = 1,
           cache = [(''b.pdf:1'', \<lparr>content = 7, lastAccessed = 4, accessCount = 2\<rparr>)],
           maxSize = 3\<rparr>)"
proof -
  let ?st = "perform_all Inr
          [(3, Set (SString ''b.pdf'') (Integer False 1) (7::nat)),
           (4, Get (SString ''b.pdf'') (Integer False 1))]
          (new_TextLayerCache 3)"
  have k: "generateCacheKey Inr (SString ''a.pdf'') (Integer False 2) = Inr ''a.pdf:2''"
    by code_simp
  have m: "map_of (cache ?st) ''a.pdf:2'' = None"
    by code_simp
  have s: "?st = \<lparr>hitCount = 1, missCount = 0,
           cache = [(''b.pdf:1'', \<lparr>content = 7, lastAccessed = 4, accessCount = 2\<rparr>)],
           maxSize = 3\<rparr>"
    by code_simp
  from C10_get_miss_frame [OF k m, of 17]
  have "TextLayerCache_get Inr 17 (SString ''a.pdf'') (Integer False 2) ?st
          = (Fulfilled None, ?st\<lparr>missCount := missCount ?st + 1\<rparr>)" .
  also have "?st\<lparr>missCount := missCount ?st + 1\<rparr>
          = \<lparr>hitCount = 1, missCount = 1,
             cache = [(''b.pdf:1'', \<lparr>content = 7, lastAccessed = 4, accessCount = 2\<rparr>)],
             maxSize = 3\<rparr>"
    unfolding s by simp
  finally show ?thesis using k m by blast
qed

subsection \<open>Eviction in the volatile store\<close>

lemma generateCacheKey_nonempty:
  "generateCacheKey H source p = Inr ck \<Longrightarrow> ck \<noteq> []"
  by (auto simp: generateCacheKey_def split: sum.splits)

lemma update_absent_append:
  "k \<notin> fst ` set m \<Longrightarrow> AList.update k v m = m @ [(k, v)]"
  by (induction m) auto

lemma length_delete_present:
  "distinct (map fst m) \<Longrightarrow> k \<in> fst ` set m \<Longrightarrow> Suc (length (AList.delete k m)) = length m"
proof (induction m)
  case Nil
  then show ?case by simp
next
  case (Cons a m)
  show ?case
  proof (cases "fst a = k")
    case True
    with Cons.prems have "k \<notin> fst ` set m" by auto
    then have "AList.delete k m = m"
      by (simp add: delete_id image_iff) 
    with True show ?thesis by (cases a) (simp add: AList.delete_eq)
  next
    case False
    with Cons show ?thesis by (auto simp: AList.delete_eq)
  qed
qed

lemma evictLRU_scan_cases:
  "(evictLRU_scan m (ok, ot) = (ok, ot)
      \<and> (\<forall>(k, e) \<in> set m. case ot of None \<Rightarrow> False | Some t \<Rightarrow> t \<le> lastAccessed e))
   \<or> (\<exists>k e. (k, e) \<in> set m \<and> evictLRU_scan m (ok, ot) = (k, Some (lastAccessed e))
         \<and> (\<forall>(k', e') \<in> set m. lastAccessed e \<le> lastAccessed e')
         \<and> (case ot of None \<Rightarrow> True | Some t \<Rightarrow> lastAccessed e < t))"
proof (induction m arbitrary: ok ot)
  case Nil
  then show ?case by simp
next
  case (Cons a m)
  obtain k e where a: "a = (k, e)" by (cases a)
  show ?case
  proof (cases "case ot of None \<Rightarrow> True | Some t \<Rightarrow> lastAccessed e < t")
    case True
    from Cons.IH [of k "Some (lastAccessed e)"] True a
    show ?thesis
      by (auto split: option.splits) (force+)?
  next
    case False
    from Cons.IH [of ok ot] False a
    show ?thesis
      by (auto split: option.splits) (force+)?
  qed
qed

lemma evictLRU_scan_None:
  assumes "m \<noteq> []"
  shows "\<exists>k e. (k, e) \<in> set m \<and> evictLRU_scan m (ok, None) = (k, Some (lastAccessed e))
           \<and> (\<forall>(k', e') \<in> set m. lastAccessed e \<le> lastAccessed e')"
proof -
  from assms obtain k0 e0 where "(k0, e0) \<in> set m" by (cases m) auto
  then have "\<not> (\<forall>(k, e) \<in> set m. case (None :: int option) of None \<Rightarrow> False
                                             | Some t \<Rightarrow> t \<le> lastAccessed e)"
    by auto
  with evictLRU_scan_cases [of m ok None] show ?thesis by blast
qed

lemma evictLRU_effect:
  assumes "cache st \<noteq> []" and "[] \<notin> fst ` set (cache st)"
  shows "\<exists>k e. (k, e) \<in> set (cache st)
           \<and> (\<forall>(k', e') \<in> set (cache st). lastAccessed e \<le> lastAccessed e')
           \<and> evictLRU st = st\<lparr>cache := AList.delete k (cache st)\<rparr>"
proof -
  from evictLRU_scan_None [OF assms(1), of "[]"]
  obtain k e where ke: "(k, e) \<in> set (cache st)"
      "evictLRU_scan (cache st) ([], None) = (k, Some (lastAccessed e))"
      "\<forall>(k', e') \<in> set (cache st). lastAccessed e \<le> lastAccessed e'"
    by blast
  from ke(1) assms(2) have "k \<noteq> []" by force
  with ke show ?thesis
    by (intro exI [of _ k] exI [of _ e]) (simp add: evictLRU_def)
qed

lemma set_evicts_one:
  assumes ok: "cache_ok st"
    and ck: "generateCacheKey H source p = Inr ck"
    and absent: "\<not> has (cache st) ck"
    and full: "maxSize st \<le> length (cache st)"
    and nonempty: "cache st \<noteq> []"
  shows "\<exists>k e. map_of (cache st) k = Some e
           \<and> (\<forall>(k', e') \<in> set (cache st). lastAccessed e \<le> lastAccessed e')
           \<and> snd (TextLayerCache_set H now source p c st)
               = st\<lparr>cache := AList.delete k (cache st)
                        @ [(ck, \<lparr>content = c, lastAccessed = now, accessCount = 1\<rparr>)]\<rparr>
           \<and> Suc (length (AList.delete k (cache st))) = length (cache st)"
proof -
  from ok have d: "distinct (map fst (cache st))" and ne: "[] \<notin> fst ` set (cache st)"
    by (simp_all add: cache_ok_def)
  from evictLRU_effect [OF nonempty ne]
  obtain k e where ke: "(k, e) \<in> set (cache st)"
      "\<forall>(k', e') \<in> set (cache st). lastAccessed e \<le> lastAccessed e'"
      "evictLRU st = st\<lparr>cache := AList.delete k (cache st)\<rparr>"
    by blast
  from ke(1) d have m: "map_of (cache st) k = Some e" by simp
  from ke(1) have kin: "k \<in> fst ` set (cache st)" by force
  from absent have "ck \<notin> fst ` set (cache st)"
    by (simp add: has_def map_of_eq_None_iff)
  then have "ck \<notin> fst ` set (AList.delete k (cache st))"
    by (auto simp: AList.delete_eq)
  then have app: "AList.update ck v (AList.delete k (cache st))
                    = AList.delete k (cache st) @ [(ck, v)]" for v
    by (rule update_absent_append)
  have "snd (TextLayerCache_set H now source p c st)
          = st\<lparr>cache := AList.delete k (cache st)
                   @ [(ck, \<lparr>content = c, lastAccessed = now, accessCount = 1\<rparr>)]\<rparr>"
    using ck absent full ke(3) app by (simp add: TextLayerCache_set_def)
  with m ke(2) length_delete_present [OF d kin] show ?thesis by blast
qed

lemma length_update_alist:
  "length (AList.update k v al) = (if k \<in> fst ` set al then length al else Suc (length al))"
  by (induction al) auto

lemma cache_ok_delete: "cache_ok st \<Longrightarrow> cache_ok (st\<lparr>cache := AList.delete k (cache st)\<rparr>)"
  using dom_delete_subset [of k "cache st"] by (auto simp: cache_ok_def distinct_delete)

lemma get_preserves:
  assumes "cache_ok st" and "length (cache st) \<le> maxSize st"
  shows "cache_ok (snd (TextLayerCache_get H now source p st))
         \<and> length (cache (snd (TextLayerCache_get H now source p st))) \<le> maxSize st
         \<and> maxSize (snd (TextLayerCache_get H now source p st)) = maxSize st"
proof (cases "generateCacheKey H source p")
  case (Inl e)
  with assms show ?thesis by (simp add: TextLayerCache_get_def)
next
  case (Inr ck)
  note k = generateCacheKey_nonempty [OF Inr]
  show ?thesis
  proof (cases "map_of (cache st) ck")
    case None
    with Inr assms show ?thesis by (simp add: TextLayerCache_get_def cache_ok_def)
  next
    case (Some entry)
    then have "ck \<in> fst ` set (cache st)"
      by (force dest: map_of_SomeD)
    with Inr Some assms k show ?thesis
      by (auto simp: TextLayerCache_get_def cache_ok_def distinct_update dom_update
            length_update_alist)
  qed
qed

lemma set_preserves:
  assumes ok: "cache_ok st" and le: "length (cache st) \<le> maxSize st" and pos: "0 < maxSize st"
  shows "cache_ok (snd (TextLayerCache_set H now source p c st))
         \<and> length (cache (snd (TextLayerCache_set H now source p c st))) \<le> maxSize st
         \<and> maxSize (snd (TextLayerCache_set H now source p c st)) = maxSize st"
proof (cases "generateCacheKey H source p")
  case (Inl e)
  with assms show ?thesis by (simp add: TextLayerCache_set_def)
next
  case (Inr ck)
  note k = generateCacheKey_nonempty [OF Inr]
  show ?thesis
  proof (cases "maxSize st \<le> length (cache st) \<and> \<not> has (cache st) ck")
    case True
    with pos have ne: "cache st \<noteq> []" by auto
    from set_evicts_one [OF ok Inr _ _ ne, of now c] True
    obtain k' where s: "snd (TextLayerCache_set H now source p c st)
               = st\<lparr>cache := AList.delete k' (cache st)
                        @ [(ck, \<lparr>content = c, lastAccessed = now, accessCount = 1\<rparr>)]\<rparr>"
        and l: "Suc (length (AList.delete k' (cache st))) = length (cache st)"
      by blast
    from True have "ck \<notin> fst ` set (cache st)"
      by (simp add: has_def map_of_eq_None_iff)
    then have "ck \<notin> fst ` set (AList.delete k' (cache st))"
      by (auto simp: AList.delete_eq)
    with cache_ok_delete [OF ok, of k'] k have "cache_ok (st\<lparr>cache := AList.delete k' (cache st)
                        @ [(ck, \<lparr>content = c, lastAccessed = now, accessCount = 1\<rparr>)]\<rparr>)"
      by (auto simp: cache_ok_def)
    with s l le show ?thesis by simp
  next
    case False
    then have s: "snd (TextLayerCache_set H now source p c st)
        = st\<lparr>cache := AList.update ck \<lparr>content = c, lastAccessed = now, accessCount = 1\<rparr>
                 (cache st)\<rparr>"
      using Inr by (auto simp: TextLayerCache_set_def)
    from False have "length (cache st) < maxSize st \<or> ck \<in> fst ` set (cache st)"
      by (auto simp: has_def map_of_eq_None_iff)
    with ok le k show ?thesis unfolding s
      by (auto simp: cache_ok_def distinct_update dom_update length_update_alist)
  qed
qed

lemma perform_preserves:
  assumes "cache_ok st" and "length (cache st) \<le> maxSize st" and "0 < maxSize st"
  shows "cache_ok (perform H c st) \<and> length (cache (perform H c st)) \<le> maxSize st
         \<and> maxSize (perform H c st) = maxSize st"
proof (cases c)
  case (Pair now x)
  show ?thesis
  proof (cases x)
    case (Get source p)
    with Pair get_preserves [OF assms(1,2)] show ?thesis by simp
  next
    case (Set source p v)
    with Pair set_preserves [OF assms] show ?thesis by simp
  next
    case Clear
    with Pair assms show ?thesis by (simp add: TextLayerCache_clear_def cache_ok_def)
  qed
qed

lemma perform_all_preserves:
  assumes "cache_ok st" and "length (cache st) \<le> maxSize st" and "0 < maxSize st"
  shows "cache_ok (perform_all H cs st) \<and> length (cache (perform_all H cs st)) \<le> maxSize st
         \<and> maxSize (perform_all H cs st) = maxSize st"
  using assms
proof (induction cs arbitrary: st)
  case Nil
  then show ?case by simp
next
  case (Cons c cs)
  from perform_preserves [OF Cons.prems, of H c]
  have a: "cache_ok (perform H c st)" "length (cache (perform H c st)) \<le> maxSize (perform H c st)"
     "0 < maxSize (perform H c st)" and m: "maxSize (perform H c st) = maxSize st"
    using Cons.prems by simp_all
  from Cons.IH [OF a] m show ?case by simp
qed

lemma new_ok: "cache_ok (new_TextLayerCache N)" "length (cache (new_TextLayerCache N)) \<le> maxSize (new_TextLayerCache N)"
  "maxSize (new_TextLayerCache N) = N"
  by (simp_all add: new_TextLayerCache_def cache_ok_def)

text \<open>
  C4 (amended). In a volatile store created with a maximum entry count \<open>N\<close> of at least
  one, after every sequence of \<open>get\<close>, \<open>set\<close> and \<open>clear\<close> calls the map holds at most
  \<open>N\<close> entries. In such a state a \<open>set\<close> for a key that is not present, made when the
  size is at least \<open>N\<close>, first deletes exactly one entry, one whose last-accessed time is
  the smallest in the map, and then appends the new entry, so that the size is \<open>N\<close>
  again.
\<close>

theorem C4_volatile_size_bounded:
  assumes "0 < N"
  shows "length (cache (perform_all H calls (new_TextLayerCache N))) \<le> N
    \<and> (\<forall>now source p c ck.
         generateCacheKey H source p = Inr ck
         \<and> \<not> has (cache (perform_all H calls (new_TextLayerCache N))) ck
         \<and> N \<le> length (cache (perform_all H calls (new_TextLayerCache N)))
         \<longrightarrow> (\<exists>k e. map_of (cache (perform_all H calls (new_TextLayerCache N))) k = Some e
                \<and> (\<forall>(k', e') \<in> set (cache (perform_all H calls (new_TextLayerCache N))).
                      lastAccessed e \<le> lastAccessed e')
                \<and> cache (snd (TextLayerCache_set H now source p c
                                (perform_all H calls (new_TextLayerCache N))))
                    = AList.delete k (cache (perform_all H calls (new_TextLayerCache N)))
                        @ [(ck, \<lparr>content = c, lastAccessed = now, accessCount = 1\<rparr>)]
                \<and> length (AList.delete k (cache (perform_all H calls (new_TextLayerCache N))))
                    = length (cache (perform_all H calls (new_TextLayerCache N))) - 1
                \<and> length (cache (snd (TextLayerCache_set H now source p c
                                (perform_all H calls (new_TextLayerCache N))))) = N))"
proof -
  define st :: "'a text_layer_cache" where "st = perform_all H calls (new_TextLayerCache N)"
  have "0 < maxSize (new_TextLayerCache N :: 'a text_layer_cache)"
    using assms by (simp add: new_ok)
  from perform_all_preserves [OF new_ok(1,2) this, of H calls]
  have ok: "cache_ok st" and le: "length (cache st) \<le> N" and mx: "maxSize st = N"
    by (simp_all add: new_ok st_def)
  have "\<exists>k e. map_of (cache st) k = Some e
          \<and> (\<forall>(k', e') \<in> set (cache st). lastAccessed e \<le> lastAccessed e')
          \<and> cache (snd (TextLayerCache_set H now source p c st))
              = AList.delete k (cache st)
                  @ [(ck, \<lparr>content = c, lastAccessed = now, accessCount = 1\<rparr>)]
          \<and> length (AList.delete k (cache st)) = length (cache st) - 1
          \<and> length (cache (snd (TextLayerCache_set H now source p c st))) = N"
    if ck: "generateCacheKey H source p = Inr ck" and absent: "\<not> has (cache st) ck"
      and full: "N \<le> length (cache st)" for now source p c ck
  proof -
    from full assms have ne: "cache st \<noteq> []" by auto
    from full mx have full': "maxSize st \<le> length (cache st)" by simp
    from set_evicts_one [OF ok ck absent full' ne, of now c]
    obtain k e where "map_of (cache st) k = Some e"
        "\<forall>(k', e') \<in> set (cache st). lastAccessed e \<le> lastAccessed e'"
        "snd (TextLayerCache_set H now source p c st)
               = st\<lparr>cache := AList.delete k (cache st)
                        @ [(ck, \<lparr>content = c, lastAccessed = now, accessCount = 1\<rparr>)]\<rparr>"
        "Suc (length (AList.delete k (cache st))) = length (cache st)"
      by blast
    with le full show ?thesis
      by (intro exI [of _ k] exI [of _ e]) simp
  qed
  with le show ?thesis unfolding st_def by blast
qed

text \<open>
  C4 as stated, for every \<open>N\<close>, fails at \<open>N = 0\<close>: \<open>evictLRU\<close> finds nothing to delete
  in the empty map and \<open>set\<close> inserts all the same, so the store holds one entry.
\<close>

theorem C4_size_exceeds_zero_capacity:
  "\<not> length (cache (perform_all Inr [(1, Set (SString ''a'') (Integer False 1) (0::nat))]
                       (new_TextLayerCache 0))) \<le> 0"
  by code_simp

theorem C4_volatile_size_bounded_witness:
  "(0::nat) < 1
   \<and> generateCacheKey Inr (SString ''b'') (Integer False 1) = Inr ''b:1''
   \<and> \<not> has (cache (perform_all Inr [(1, Set (SString ''a'') (Integer False 1) (0::nat))]
                       (new_TextLayerCache 1))) ''b:1''
   \<and> 1 \<le> length (cache (perform_all Inr [(1, Set (SString ''a'') (Integer False 1) (0::nat))]
                       (new_TextLayerCache 1)))
   \<and> length (cache (perform_all Inr [(1, Set (SString ''a'') (Integer False 1) (0::nat))]
                       (new_TextLayerCache 1))) \<le> 1
   \<and> length (cache (snd (TextLayerCache_set Inr 2 (SString ''b'') (Integer False 1) 5
           (perform_all Inr [(1, Set (SString ''a'') (Integer False 1) (0::nat))]
                       (new_TextLayerCache 1))))) = 1"
proof -
  have h0: "(0::nat) < 1" by simp
  have h1: "generateCacheKey Inr (SString ''b'') (Integer False 1) = Inr ''b:1''" by code_simp
  have h2: "\<not> has (cache (perform_all Inr [(1, Set (SString ''a'') (Integer False 1) (0::nat))]
                       (new_TextLayerCache 1))) ''b:1''" by code_simp
  have h3: "1 \<le> length (cache (perform_all Inr [(1, Set (SString ''a'') (Integer False 1) (0::nat))]
                       (new_TextLayerCache 1)))" by code_simp
  from C4_volatile_size_bounded [OF h0, of Inr "[(1, Set (SString ''a'') (Integer False 1) (0::nat))]"]
    h0 h1 h2 h3
  show ?thesis by blast
qed

subsection \<open>Filling the volatile store past its capacity\<close>

lemma perform_all_append:
  "perform_all H (xs @ ys) st = perform_all H ys (perform_all H xs st)"
  by (induction xs arbitrary: st) auto

lemma fst_filled: "length sets = length keys \<Longrightarrow> map fst (filled sets keys) = keys"
  unfolding filled_def
  by (induction sets keys rule: list_induct2) auto

lemma fill_store:
  assumes "list_all2 (\<lambda>(now, source, p, c) ck. generateCacheKey H source p = Inr ck) sets keys"
    and "distinct keys" and "length sets \<le> N"
  shows "perform_all H (map set_call sets) (new_TextLayerCache N)
           = (new_TextLayerCache N)\<lparr>cache := filled sets keys\<rparr>"
  using assms
proof (induction sets arbitrary: keys rule: rev_induct)
  case Nil
  then show ?case by (simp add: filled_def new_TextLayerCache_def)
next
  case (snoc x xs)
  from snoc.prems(1) obtain ks k where keys: "keys = ks @ [k]"
      and xs: "list_all2 (\<lambda>(now, source, p, c) ck. generateCacheKey H source p = Inr ck) xs ks"
      and x: "(\<lambda>(now, source, p, c) ck. generateCacheKey H source p = Inr ck) x k"
    by (auto simp: list_all2_append1 list_all2_Cons1)
  from xs have len: "length xs = length ks" by (rule list_all2_lengthD)
  obtain now source p c where xe: "x = (now, source, p, c)" by (cases x)
  from x xe have ck: "generateCacheKey H source p = Inr k" by simp
  from snoc.prems keys have d: "distinct ks" and kn: "k \<notin> set ks" and l: "length xs < N"
    by auto
  from snoc.IH [OF xs d] l
  have st: "perform_all H (map set_call xs) (new_TextLayerCache N)
           = (new_TextLayerCache N)\<lparr>cache := filled xs ks\<rparr>" by simp
  from kn have absent: "k \<notin> fst ` set (filled xs ks)"
    using fst_filled [OF len] by (metis list.set_map)
  have lf: "length (filled xs ks) = length xs"
    using len by (simp add: filled_def)
  have "perform H (set_call x) ((new_TextLayerCache N)\<lparr>cache := filled xs ks\<rparr>)
          = (new_TextLayerCache N)\<lparr>cache := filled xs ks
               @ [(k, \<lparr>content = c, lastAccessed = now, accessCount = 1\<rparr>)]\<rparr>"
    using ck l lf update_absent_append [OF absent]
    by (simp add: xe set_call_def TextLayerCache_set_def new_TextLayerCache_def)
  moreover have "filled (xs @ [x]) (ks @ [k])
      = filled xs ks @ [(k, \<lparr>content = c, lastAccessed = now, accessCount = 1\<rparr>)]"
    using len by (simp add: filled_def xe)
  ultimately show ?case
    by (simp add: perform_all_append st keys)
qed

text \<open>
  C5 (amended). Take a volatile store created with maximum size \<open>N\<close> of at least one and
  \<open>N + 1\<close> \<open>set\<close> calls on it whose keys are pairwise distinct. After the last call
  exactly one of the \<open>N + 1\<close> keys is absent from the map, and its entry had the
  smallest last-accessed time among the entries present when the last call was made.
\<close>

theorem C5_volatile_evicts_oldest:
  assumes pos: "0 < N" and len: "length sets = N + 1"
    and keys: "list_all2 (\<lambda>(now, source, p, c) ck. generateCacheKey H source p = Inr ck)
                 sets keys"
    and dist: "distinct keys"
  shows "\<exists>k \<in> set keys.
           (\<forall>k' \<in> set keys.
              has (cache (perform_all H (map set_call sets) (new_TextLayerCache N))) k'
                \<longleftrightarrow> k' \<noteq> k)
         \<and> (\<exists>e. map_of (cache (perform_all H (map set_call (butlast sets))
                                  (new_TextLayerCache N))) k = Some e
               \<and> (\<forall>(k', e') \<in> set (cache (perform_all H (map set_call (butlast sets))
                                             (new_TextLayerCache N))).
                     lastAccessed e \<le> lastAccessed e'))"
proof -
  from len obtain xs x where sets: "sets = xs @ [x]"
    by (cases sets rule: rev_cases) auto
  with keys obtain ks kl where ks: "keys = ks @ [kl]"
      and xs: "list_all2 (\<lambda>(now, source, p, c) ck. generateCacheKey H source p = Inr ck) xs ks"
      and x: "(\<lambda>(now, source, p, c) ck. generateCacheKey H source p = Inr ck) x kl"
    by (auto simp: list_all2_append1 list_all2_Cons1)
  from xs have lxs: "length xs = length ks" by (rule list_all2_lengthD)
  from len sets have n: "length xs = N" by simp
  obtain now source p c where xe: "x = (now, source, p, c)" by (cases x)
  from x xe have ck: "generateCacheKey H source p = Inr kl" by simp
  from dist ks have d: "distinct ks" and kn: "kl \<notin> set ks" by auto
  define before :: "'a text_layer_cache"
    where "before = perform_all H (map set_call xs) (new_TextLayerCache N)"
  have b: "before = (new_TextLayerCache N)\<lparr>cache := filled xs ks\<rparr>"
    unfolding before_def using fill_store [OF xs d] n by simp
  have dom: "map fst (cache before) = ks"
    by (simp add: b fst_filled [OF lxs])
  have "\<forall>k \<in> set ks. k \<noteq> []"
  proof
    fix k assume "k \<in> set ks"
    then obtain i where "i < length ks" "ks ! i = k" by (auto simp: in_set_conv_nth)
    with xs have "(\<lambda>(now, source, p, c) ck. generateCacheKey H source p = Inr ck) (xs ! i) k"
      by (auto simp: list_all2_conv_all_nth)
    then show "k \<noteq> []"
      by (cases "xs ! i") (auto dest: generateCacheKey_nonempty)
  qed
  with d dom have ok: "cache_ok before"
    by (auto simp: cache_ok_def simp flip: set_map)
  from dom kn have absent: "\<not> has (cache before) kl"
    by (simp add: has_def map_of_eq_None_iff flip: set_map)
  have mx: "maxSize before = N" by (simp add: b new_TextLayerCache_def)
  have lb: "length (cache before) = N"
    using dom lxs n by (metis length_map)
  with pos have ne: "cache before \<noteq> []" by auto
  from lb mx have full: "maxSize before \<le> length (cache before)" by simp
  from set_evicts_one [OF ok ck absent full ne, of now c]
  obtain k e where ke: "map_of (cache before) k = Some e"
      "\<forall>(k', e') \<in> set (cache before). lastAccessed e \<le> lastAccessed e'"
      "snd (TextLayerCache_set H now source p c before)
               = before\<lparr>cache := AList.delete k (cache before)
                        @ [(kl, \<lparr>content = c, lastAccessed = now, accessCount = 1\<rparr>)]\<rparr>"
    by blast
  from ke(1) have "k \<in> fst ` set (cache before)"
    by (force dest: map_of_SomeD)
  with dom have kin: "k \<in> set ks" by (simp flip: set_map)
  with kn have kkl: "k \<noteq> kl" by auto
  have after: "perform_all H (map set_call sets) (new_TextLayerCache N)
                 = before\<lparr>cache := AList.delete k (cache before)
                        @ [(kl, \<lparr>content = c, lastAccessed = now, accessCount = 1\<rparr>)]\<rparr>"
    using ke(3) by (simp add: sets perform_all_append before_def xe set_call_def)
  have "has (cache (perform_all H (map set_call sets) (new_TextLayerCache N))) k'
          \<longleftrightarrow> k' \<noteq> k" if "k' \<in> set keys" for k'
  proof (cases "k' = kl")
    case True
    with kkl show ?thesis by (simp add: after has_def)
  next
    case False
    with that ks have "k' \<in> set ks" by simp
    with dom have "map_of (cache before) k' \<noteq> None"
      by (simp add: map_of_eq_None_iff flip: set_map)
    with False show ?thesis
      by (auto simp: after has_def delete_conv' map_add_def split: option.splits)
  qed
  then have one: "\<forall>k' \<in> set keys.
      has (cache (perform_all H (map set_call sets) (new_TextLayerCache N))) k' \<longleftrightarrow> k' \<noteq> k"
    by blast
  have bl: "perform_all H (map set_call (butlast sets)) (new_TextLayerCache N) = before"
    by (simp add: sets before_def)
  from kin ks have "k \<in> set keys" by simp
  with one ke(1,2) show ?thesis unfolding bl by blast
qed

text \<open>
  C5 as stated fails at \<open>N = 0\<close>: after the single \<open>set\<close> call its key is present, so
  none of the \<open>N + 1\<close> keys is absent.
\<close>

theorem C5_one_set_zero_capacity:
  "generateCacheKey Inr (SString ''a'') (Integer False 1) = Inr ''a:1''
   \<and> has (cache (perform_all Inr (map set_call [(1, SString ''a'', Integer False 1, 0::nat)])
                   (new_TextLayerCache 0))) ''a:1''"
  by code_simp

text \<open>
  The theorem at \<open>N = 2\<close> with the writes at times 7, 3 and 9: before the third write
  the store holds two entries, and the one evicted is the second, written at time 3.
\<close>

theorem C5_volatile_evicts_oldest_witness:
  "(0::nat) < 2
   \<and> length [(7::int, SString ''a'', Integer False 1, 0::nat), (3, SString ''b'', Integer False 1, 5),
              (9, SString ''c'', Integer False 1, 6)] = 2 + 1
   \<and> list_all2 (\<lambda>(now, source, p, c) ck. generateCacheKey Inr source p = Inr ck)
        [(7::int, SString ''a'', Integer False 1, 0::nat), (3, SString ''b'', Integer False 1, 5),
         (9, SString ''c'', Integer False 1, 6)]
        [''a:1'', ''b:1'', ''c:1'']
   \<and> distinct [''a:1'', ''b:1'', ''c:1'']
   \<and> cache (perform_all Inr (map set_call
          [(7::int, SString ''a'', Integer False 1, 0::nat), (3, SString ''b'', Integer False 1, 5)])
          (new_TextLayerCache 2))
       = [(''a:1'', \<lparr>content = 0, lastAccessed = 7, accessCount = 1\<rparr>),
          (''b:1'', \<lparr>content = 5, lastAccessed = 3, accessCount = 1\<rparr>)]
   \<and> cache (perform_all Inr (map set_call
          [(7::int, SString ''a'', Integer False 1, 0::nat), (3, SString ''b'', Integer False 1, 5),
           (9, SString ''c'', Integer False 1, 6)])
          (new_TextLayerCache 2))
       = [(''a:1'', \<lparr>content = 0, lastAccessed = 7, accessCount = 1\<rparr>),
          (''c:1'', \<lparr>content = 6, lastAccessed = 9, accessCount = 1\<rparr>)]
   \<and> (\<exists>k \<in> set [''a:1'', ''b:1'', ''c:1''].
           (\<forall>k' \<in> set [''a:1'', ''b:1'', ''c:1''].
              has (cache (perform_all Inr (map set_call
                 [(7::int, SString ''a'', Integer False 1, 0::nat),
                  (3, SString ''b'', Integer False 1, 5), (9, SString ''c'', Integer False 1, 6)])
                 (new_TextLayerCache 2))) k' \<longleftrightarrow> k' \<noteq> k)
         \<and> (\<exists>e. map_of (cache (perform_all Inr (map set_call (butlast
                 [(7::int, SString ''a'', Integer False 1, 0::nat),
                  (3, SString ''b'', Integer False 1, 5), (9, SString ''c'', Integer False 1, 6)]))
                 (new_TextLayerCache 2))) k = Some e
               \<and> (\<forall>(k', e') \<in> set (cache (perform_all Inr (map set_call (butlast
                 [(7::int, SString ''a'', Integer False 1, 0::nat),
                  (3, SString ''b'', Integer False 1, 5), (9, SString ''c'', Integer False 1, 6)]))
                 (new_TextLayerCache 2))).
                     lastAccessed e \<le> lastAccessed e')))"
proof -
  let ?sets = "[(7::int, SString ''a'', Integer False 1, 0::nat),
                (3, SString ''b'', Integer False 1, 5), (9, SString ''c'', Integer False 1, 6)]"
  have h0: "(0::nat) < 2" by simp
  have h1: "length ?sets = 2 + 1" by simp
  have h2: "list_all2 (\<lambda>(now, source, p, c) ck. generateCacheKey Inr source p = Inr ck)
              ?sets [''a:1'', ''b:1'', ''c:1'']" by code_simp
  have h3: "distinct [''a:1'', ''b:1'', ''c:1'']" by simp
  have b: "cache (perform_all Inr (map set_call
          [(7::int, SString ''a'', Integer False 1, 0::nat), (3, SString ''b'', Integer False 1, 5)])
          (new_TextLayerCache 2))
       = [(''a:1'', \<lparr>content = 0, lastAccessed = 7, accessCount = 1\<rparr>),
          (''b:1'', \<lparr>content = 5, lastAccessed = 3, accessCount = 1\<rparr>)]" by code_simp
  have a: "cache (perform_all Inr (map set_call ?sets) (new_TextLayerCache 2))
       = [(''a:1'', \<lparr>content = 0, lastAccessed = 7, accessCount = 1\<rparr>),
          (''c:1'', \<lparr>content = 6, lastAccessed = 9, accessCount = 1\<rparr>)]" by code_simp
  note C5_volatile_evicts_oldest [OF h0 h1 h2 h3]
  with h0 h1 h2 h3 a b show ?thesis by (intro conjI)
qed

section \<open>Properties of the persistent store\<close>

subsection \<open>Key derivation\<close>

text \<open>
  C2. The claim is that key derivation returns a string for every source, an
  \<open>ArrayBuffer\<close> of any byte length included. The synchronous derivation of the
  persistent store throws on an \<open>ArrayBuffer\<close> of five bytes: \<open>fastHashArrayBuffer\<close>
  views the buffer as a \<open>Uint32Array\<close>, which needs a byte length that is a multiple of
  four. The same bytes as a \<open>Uint8Array\<close>, and a buffer of eight bytes, give a key.
\<close>

theorem C2_sync_key_throws_on_odd_buffer:
  "generateCacheKeySync (SArrayBuffer [1, 2, 3, 4, 5]) (Integer False 1)
     = Inl (RangeError ''byte length of Uint32Array should be a multiple of 4'')
   \<and> generateCacheKeySync (SUint8Array [1, 2, 3, 4, 5] [1, 2, 3, 4, 5]) (Integer False 1)
     = Inr ''l4w3_5:1''
   \<and> generateCacheKeySync (SArrayBuffer [1, 2, 3, 4, 255, 255, 255, 255]) (Integer False 1)
     = Inr ''yi8mji_8:1''"
  by code_simp

subsection \<open>Failing requests\<close>

text \<open>
  C1. The claim is that no operation of the persistent store rejects with the error of a
  failing engine request. On an open store each of \<open>get\<close>, \<open>set\<close>, \<open>clear\<close>,
  \<open>cleanup\<close> and \<open>getStatsAsync\<close> rejects with the error of its failing request:
  the promise around the request is returned from inside the \<open>try\<close> block without
  \<open>await\<close>, so the \<open>catch\<close> never sees the rejection.
\<close>

theorem C1_request_errors_reach_the_caller:
  "fst (IndexedDbCache_get (working\<lparr>fails := [GetReq \<mapsto> DOMException ''UnknownError'']\<rparr>)
          5 5 (SString ''a.pdf'') (Integer False 1)
          (snd (ensureInitialized working (new_IndexedDbCache 7 1000 ([] :: nat idb_entry list)))))
     = Rejected (DOMException ''UnknownError'')
   \<and> fst (IndexedDbCache_set (working\<lparr>fails := [PutReq \<mapsto> DOMException ''QuotaExceededError'']\<rparr>)
          5 (SString ''a.pdf'') (Integer False 1) 0
          (snd (ensureInitialized working (new_IndexedDbCache 7 1000 ([] :: nat idb_entry list)))))
     = Rejected (DOMException ''QuotaExceededError'')
   \<and> fst (IndexedDbCache_clear (working\<lparr>fails := [ClearReq \<mapsto> DOMException ''UnknownError'']\<rparr>)
          (snd (ensureInitialized working (new_IndexedDbCache 7 1000 ([] :: nat idb_entry list)))))
     = Rejected (DOMException ''UnknownError'')
   \<and> fst (IndexedDbCache_cleanup (working\<lparr>fails := [CursorReq \<mapsto> DOMException ''UnknownError'']\<rparr>)
          5 (snd (ensureInitialized working (new_IndexedDbCache 7 1000 ([] :: nat idb_entry list)))))
     = Rejected (DOMException ''UnknownError'')
   \<and> fst (IndexedDbCache_getStatsAsync (working\<lparr>fails := [CountReq \<mapsto> DOMException ''UnknownError'']\<rparr>)
          (snd (ensureInitialized working (new_IndexedDbCache 7 1000 ([] :: nat idb_entry list)))))
     = Rejected (DOMException ''UnknownError'')"
  by code_simp

text \<open>
  What the \<open>catch\<close> does absorb: an exception thrown by \<open>db.transaction\<close> and a
  failed initialization, here for \<open>get\<close>.
\<close>

lemma thrown_and_awaited_failures_are_absorbed:
  "fst (IndexedDbCache_get (working\<lparr>fails := [Transaction \<mapsto> DOMException ''InvalidStateError'']\<rparr>)
          5 5 (SString ''a.pdf'') (Integer False 1)
          (snd (ensureInitialized working (new_IndexedDbCache 7 1000 ([] :: nat idb_entry list)))))
     = Fulfilled None
  \<and> fst (IndexedDbCache_get (working\<lparr>supported := False\<rparr>)
          5 5 (SString ''a.pdf'') (Integer False 1)
          (new_IndexedDbCache 7 1000 ([] :: nat idb_entry list)))
     = Fulfilled None"
  by code_simp

subsection \<open>The object store and the queued evictions\<close>

lemma lookup_key: "lookup k store = Some entry \<Longrightarrow> key entry = k \<and> entry \<in> set store"
  unfolding lookup_def by (induction store) (auto split: if_splits)


lemma set_put:
  "store_ok store \<Longrightarrow> set (put e store) = insert e {x \<in> set store. key x \<noteq> key e}"
  unfolding store_ok_def by (induction store) (auto simp: less_le)

lemma store_ok_put: "store_ok store \<Longrightarrow> store_ok (put e store)"
  unfolding store_ok_def
proof (induction store)
  case Nil
  then show ?case by simp
next
  case (Cons x xs)
  then have ok: "store_ok (x # xs)" "store_ok xs" by (simp_all add: store_ok_def)
  from Cons show ?case
    using set_put [OF ok(2), of e] by (auto simp: not_less less_le)
qed

lemma length_put:
  "length (put e store) = (if lookup (key e) store = None then Suc (length store) else length store)"
  if "store_ok store"
  using that unfolding store_ok_def lookup_def
  by (induction store) (auto simp: find_None_iff)

lemma store_ok_distinct: "store_ok store \<Longrightarrow> distinct (map key store)"
  unfolding store_ok_def by (induction store) auto

lemma evict_cursor_eq:
  "evict_cursor idx n d store
     = (filter (\<lambda>x. key x \<notin> key ` set (take (n - d) idx)) store, d + min (n - d) (length idx))"
proof (induction idx arbitrary: d store)
  case Nil
  then show ?case by simp
next
  case (Cons e rest)
  show ?case
  proof (cases "d < n")
    case True
    then obtain m where m: "n - d = Suc m" by (cases "n - d") auto
    then have m': "n - Suc d = m" by simp
    show ?thesis
      using True Cons.IH [of "d + 1" "delete_key (key e) store"]
      by (auto simp: m m' delete_key_def intro: filter_cong)
  next
    case False
    then show ?thesis by simp
  qed
qed

lemma evict_cursor_length:
  assumes ok: "store_ok store" and idx: "set idx = set store" "distinct idx"
  shows "length (fst (evict_cursor idx n 0 store)) = length store - min n (length store)"
    and "snd (evict_cursor idx n 0 store) = min n (length store)"
    and "set (fst (evict_cursor idx n 0 store)) = set store - set (take n idx)"
proof -
  let ?V = "set (take n idx)"
  from store_ok_distinct [OF ok] have dk: "distinct (map key store)" .
  then have ds: "distinct store" by (simp add: distinct_map)
  from dk have inj: "inj_on key (set store)" by (simp add: distinct_map)
  have sub: "?V \<subseteq> set store" using idx(1) by (auto dest: in_set_takeD)
  have li: "length idx = length store"
    using idx ds by (metis distinct_card)
  have mem: "key x \<in> key ` ?V \<longleftrightarrow> x \<in> ?V" if "x \<in> set store" for x
    using that sub inj by (auto dest: inj_onD)
  then have f: "filter (\<lambda>x. key x \<notin> key ` ?V) store = filter (\<lambda>x. x \<notin> ?V) store"
    by (auto intro: filter_cong)
  have e: "evict_cursor idx n 0 store = (filter (\<lambda>x. x \<notin> ?V) store, min n (length store))"
    by (simp add: evict_cursor_eq f li)
  have "length (filter (\<lambda>x. x \<in> ?V) store) = card ({x. x \<in> ?V} \<inter> set store)"
    using ds by (rule distinct_length_filter)
  also have "{x. x \<in> ?V} \<inter> set store = ?V" using sub by auto
  also have "card ?V = length (take n idx)"
    using idx(2) by (simp add: distinct_card)
  finally have lv: "length (filter (\<lambda>x. x \<in> ?V) store) = min n (length store)"
    by (simp add: li min.commute)
  have "length (filter (\<lambda>x. x \<in> ?V) store) + length (filter (\<lambda>x. x \<notin> ?V) store)
          = length store"
    by (rule sum_length_filter_compl)
  with lv show "length (fst (evict_cursor idx n 0 store)) = length store - min n (length store)"
    by (simp add: e)
  show "snd (evict_cursor idx n 0 store) = min n (length store)" by (simp add: e)
  show "set (fst (evict_cursor idx n 0 store)) = set store - set (take n idx)"
    by (auto simp: e)
qed

lemma index_lastAccessed_props:
  "set (index_lastAccessed store) = set store"
  "distinct store \<Longrightarrow> distinct (index_lastAccessed store)"
  "sorted (map lastAccessed (index_lastAccessed store))"
  by (simp_all add: index_lastAccessed_def)

lemma sorted_take_le:
  assumes "sorted (map f xs)" and "x \<in> set (take n xs)" and "y \<in> set xs" and "y \<notin> set (take n xs)"
  shows "f x \<le> f y"
proof -
  have "xs = take n xs @ drop n xs" by simp
  with assms(3,4) have y: "y \<in> set (drop n xs)"
    by (metis Un_iff set_append)
  have "sorted (map f (take n xs) @ map f (drop n xs))"
    using assms(1) by (metis append_take_drop_id map_append)
  with assms(2) y show ?thesis
    by (auto simp: sorted_append)
qed

lemma settle_nil: "evictions st = [] \<Longrightarrow> settle E st = st"
  by (cases st) (simp add: settle_def)

lemma evictOldest_frame:
  "hitCount (evictOldest E n st) = hitCount st"
  "missCount (evictOldest E n st) = missCount st"
  "db (evictOldest E n st) = db st"
  "expirationMs (evictOldest E n st) = expirationMs st"
  "maxEntries (evictOldest E n st) = maxEntries st"
  "deferredOperations (evictOldest E n st) = deferredOperations st"
  "processingDeferred (evictOldest E n st) = processingDeferred st"
  "evictions (evictOldest E n st) = evictions st"
  by (simp_all add: evictOldest_def split: option.splits prod.splits)

lemma foldl_evictOldest_frame:
  "hitCount (foldl (\<lambda>s n. evictOldest E n s) st ns) = hitCount st"
  "missCount (foldl (\<lambda>s n. evictOldest E n s) st ns) = missCount st"
  "db (foldl (\<lambda>s n. evictOldest E n s) st ns) = db st"
  "expirationMs (foldl (\<lambda>s n. evictOldest E n s) st ns) = expirationMs st"
  "maxEntries (foldl (\<lambda>s n. evictOldest E n s) st ns) = maxEntries st"
  "deferredOperations (foldl (\<lambda>s n. evictOldest E n s) st ns) = deferredOperations st"
  "processingDeferred (foldl (\<lambda>s n. evictOldest E n s) st ns) = processingDeferred st"
  "evictions (foldl (\<lambda>s n. evictOldest E n s) st ns) = evictions st"
  by (induction ns arbitrary: st) (simp_all add: evictOldest_frame)

lemma settle_frame:
  "hitCount (settle E st) = hitCount st"
  "missCount (settle E st) = missCount st"
  "db (settle E st) = db st"
  "expirationMs (settle E st) = expirationMs st"
  "maxEntries (settle E st) = maxEntries st"
  "deferredOperations (settle E st) = deferredOperations st"
  "processingDeferred (settle E st) = processingDeferred st"
  "evictions (settle E st) = []"
  by (simp_all add: settle_def foldl_evictOldest_frame)

lemma ensureInitialized_open: "db st \<Longrightarrow> ensureInitialized E st = (Fulfilled (), st)"
  by (simp add: ensureInitialized_def)

lemma deferredRemove_frame:
  "objectStore (deferredRemoveExpiredEntry k st) = objectStore st"
  "hitCount (deferredRemoveExpiredEntry k st) = hitCount st"
  "missCount (deferredRemoveExpiredEntry k st) = missCount st"
  "(''remove:'' @ k) \<in> set (deferredOperations (deferredRemoveExpiredEntry k st))"
  by (simp_all add: deferredRemoveExpiredEntry_def scheduleDeferredProcessing_def set_add_def)

subsection \<open>Invariants of the reachable states\<close>

lemma store_ok_filter: "store_ok s \<Longrightarrow> store_ok (filter P s)"
  unfolding store_ok_def by (rule sorted_wrt_filter)

lemma store_ok_Nil: "store_ok []"
  by (simp add: store_ok_def)

lemma store_ok_delete_key: "store_ok s \<Longrightarrow> store_ok (delete_key k s)"
  by (simp add: delete_key_def store_ok_filter)

lemma store_ok_evict_cursor: "store_ok s \<Longrightarrow> store_ok (fst (evict_cursor idx n d s))"
  by (simp add: evict_cursor_eq store_ok_filter)

lemma store_ok_cleanup_cursor: "store_ok s \<Longrightarrow> store_ok (fst (cleanup_cursor now idx d s))"
  by (induction idx arbitrary: d s) (simp_all add: store_ok_delete_key)

lemma evictOldest_objectStore:
  "objectStore (evictOldest E n st)
     = (case fails E CursorReq of
          Some e \<Rightarrow> objectStore st
        | None \<Rightarrow> fst (evict_cursor (index_lastAccessed (objectStore st)) n 0 (objectStore st)))"
  by (simp add: evictOldest_def split: option.splits prod.splits)

lemma evictOldest_initPromise: "initPromise (evictOldest E n st) = initPromise st"
  by (simp add: evictOldest_def split: option.splits prod.splits)

lemma foldl_evictOldest_initPromise:
  "initPromise (foldl (\<lambda>s n. evictOldest E n s) st ns) = initPromise st"
  by (induction ns arbitrary: st) (simp_all add: evictOldest_initPromise)

lemma settle_initPromise: "initPromise (settle E st) = initPromise st"
  by (simp add: settle_def foldl_evictOldest_initPromise)

lemma store_ok_evictOldest:
  "store_ok (objectStore st) \<Longrightarrow> store_ok (objectStore (evictOldest E n st))"
  by (simp add: evictOldest_objectStore store_ok_evict_cursor split: option.splits)

lemma store_ok_foldl_evictOldest:
  "store_ok (objectStore st) \<Longrightarrow> store_ok (objectStore (foldl (\<lambda>s n. evictOldest E n s) st ns))"
  by (induction ns arbitrary: st) (simp_all add: store_ok_evictOldest)

lemma store_ok_settle: "store_ok (objectStore st) \<Longrightarrow> store_ok (objectStore (settle E st))"
  by (simp add: settle_def store_ok_foldl_evictOldest)

lemma foldl_evictOldest_cong:
  "objectStore a = objectStore b \<Longrightarrow>
     objectStore (foldl (\<lambda>s n. evictOldest E n s) a ns)
       = objectStore (foldl (\<lambda>s n. evictOldest E n s) b ns)"
proof (induction ns arbitrary: a b)
  case Nil
  then show ?case by simp
next
  case (Cons n ns)
  from Cons.prems have "objectStore (evictOldest E n a) = objectStore (evictOldest E n b)"
    by (simp add: evictOldest_objectStore split: option.splits)
  from Cons.IH [OF this] show ?case by simp
qed

lemma settle_cong:
  assumes "objectStore a = objectStore b" and "evictions a = evictions b"
  shows "objectStore (settle E a) = objectStore (settle E b)"
  unfolding settle_def assms(2)
  by (rule foldl_evictOldest_cong) (simp add: assms(1))





lemma ensureInitialized_frame:
  "objectStore (snd (ensureInitialized E st)) = objectStore st"
  "evictions (snd (ensureInitialized E st)) = evictions st"
  "hitCount (snd (ensureInitialized E st)) = hitCount st"
  "missCount (snd (ensureInitialized E st)) = missCount st"
  "maxEntries (snd (ensureInitialized E st)) = maxEntries st"
  "expirationMs (snd (ensureInitialized E st)) = expirationMs st"
  "deferredOperations (snd (ensureInitialized E st)) = deferredOperations st"
  "processingDeferred (snd (ensureInitialized E st)) = processingDeferred st"
  by (simp_all add: ensureInitialized_def initialize_def Let_def split: option.splits)

lemma ensureInitialized_consistent:
  "consistent st \<Longrightarrow> consistent (snd (ensureInitialized E st))"
  by (auto simp: consistent_def ensureInitialized_def initialize_def Let_def split: option.splits)

lemma ensureInitialized_db:
  "consistent st \<Longrightarrow> fst (ensureInitialized E st) = Fulfilled () \<Longrightarrow> db (snd (ensureInitialized E st))"
  by (auto simp: consistent_def ensureInitialized_def initialize_def Let_def
        split: option.splits if_splits)

lemma consistent_simps:
  "consistent (miss st) = consistent st"
  "consistent (deferredUpdateAccessStats k st) = consistent st"
  "consistent (deferredRemoveExpiredEntry k st) = consistent st"
  "consistent (st\<lparr>hitCount := h\<rparr>) = consistent st"
  "consistent (st\<lparr>missCount := m\<rparr>) = consistent st"
  "consistent (st\<lparr>cachedCount := n\<rparr>) = consistent st"
  "consistent (st\<lparr>deferredOperations := ops\<rparr>) = consistent st"
  "consistent (st\<lparr>evictions := q\<rparr>) = consistent st"
  by (simp_all add: consistent_def miss_def deferredUpdateAccessStats_def
        deferredRemoveExpiredEntry_def scheduleDeferredProcessing_def)

lemma consistent_store:
  "consistent st \<Longrightarrow> store_ok s \<Longrightarrow> consistent (st\<lparr>objectStore := s\<rparr>)"
  by (simp add: consistent_def)

lemma consistent_settle: "consistent st \<Longrightarrow> consistent (settle E st)"
  by (simp add: consistent_def store_ok_settle settle_initPromise settle_frame)

lemma consistent_evictIfNeeded: "consistent st \<Longrightarrow> consistent (evictIfNeeded E st)"
  by (simp add: evictIfNeeded_def Let_def consistent_settle consistent_simps split: option.splits)

lemma consistent_get:
  "consistent st \<Longrightarrow> consistent (snd (IndexedDbCache_get E now1 now2 source p st))"
  using ensureInitialized_consistent [of st E]
  by (cases "ensureInitialized E st")
     (simp add: IndexedDbCache_get_def Let_def consistent_simps consistent_settle
        split: settled.splits sum.splits option.splits)

lemma consistent_set:
  assumes c: "consistent st"
  shows "consistent (snd (IndexedDbCache_set E now source p c st))"
proof -
  obtain r st1 where e: "ensureInitialized E st = (r, st1)" by (cases "ensureInitialized E st")
  with ensureInitialized_consistent [OF c, of E] have c1: "consistent st1" by simp
  then have c2: "consistent (evictIfNeeded E st1)" by (rule consistent_evictIfNeeded)
  then have s2: "store_ok (objectStore (evictIfNeeded E st1))" by (simp add: consistent_def)
  show ?thesis
    by (simp add: IndexedDbCache_set_def e Let_def c1 c2 s2 consistent_simps consistent_store
          store_ok_put split: settled.splits sum.splits option.splits)
qed

lemma consistent_clear:
  "consistent st \<Longrightarrow> consistent (snd (IndexedDbCache_clear E st))"
  using ensureInitialized_consistent [of st E]
  by (cases "ensureInitialized E st")
     (auto simp: IndexedDbCache_clear_def Let_def consistent_def store_ok_settle store_ok_Nil
        settle_frame settle_initPromise
        split: settled.splits sum.splits option.splits)

lemma consistent_getStatsAsync:
  "consistent st \<Longrightarrow> consistent (snd (IndexedDbCache_getStatsAsync E st))"
  using ensureInitialized_consistent [of st E]
  by (cases "ensureInitialized E st")
     (simp add: IndexedDbCache_getStatsAsync_def Let_def consistent_simps consistent_settle
        split: settled.splits sum.splits option.splits)

lemma consistent_cleanup:
  "consistent st \<Longrightarrow> consistent (snd (IndexedDbCache_cleanup E now st))"
proof -
  assume c: "consistent st"
  obtain r st1 where e: "ensureInitialized E st = (r, st1)" by (cases "ensureInitialized E st")
  with ensureInitialized_consistent [OF c, of E] have c1: "consistent st1" by simp
  then have c2: "consistent (settle E st1)" by (rule consistent_settle)
  then have "store_ok (fst (cleanup_cursor now (objectStore (settle E st1)) 0
                              (objectStore (settle E st1))))"
    by (simp add: consistent_def store_ok_cleanup_cursor)
  with c1 c2 show ?thesis
    by (auto simp: IndexedDbCache_cleanup_def e Let_def consistent_simps consistent_def
          split: settled.splits option.splits prod.splits)
qed

lemma store_ok_foldl_put:
  "store_ok s \<Longrightarrow>
     store_ok (foldl (\<lambda>store k. case lookup k store of
                                   Some entry \<Rightarrow> put (f entry) store
                                 | None \<Rightarrow> store) s ks)"
  by (induction ks arbitrary: s) (auto simp: store_ok_put split: option.splits)

lemma store_ok_foldl_delete:
  "store_ok s \<Longrightarrow> store_ok (foldl (\<lambda>store k. delete_key k store) s ks)"
  by (induction ks arbitrary: s) (auto simp: store_ok_delete_key)

lemma consistent_batchUpdate:
  "consistent st \<Longrightarrow> consistent (batchUpdateAccessStats E now ks st)"
  using consistent_settle [of st E]
  by (auto simp: batchUpdateAccessStats_def Let_def consistent_def store_ok_foldl_put
        split: option.splits)

lemma consistent_batchRemove:
  "consistent st \<Longrightarrow> consistent (batchRemoveEntries E ks st)"
  using consistent_settle [of st E]
  by (auto simp: batchRemoveEntries_def Let_def consistent_def store_ok_foldl_delete
        split: option.splits)

lemma consistent_timer:
  "consistent st \<Longrightarrow> consistent (processDeferredOperations E now st)"
  by (simp add: processDeferredOperations_def Let_def consistent_simps consistent_batchUpdate
        consistent_batchRemove)

lemma consistent_new: "store_ok records \<Longrightarrow> consistent (new_IndexedDbCache d m records)"
  by (simp add: consistent_def new_IndexedDbCache_def)

lemma reachable_consistent: "reachable st \<Longrightarrow> consistent st"
  by (induction rule: reachable.induct)
     (simp_all add: consistent_new consistent_get consistent_set consistent_clear
        consistent_cleanup consistent_getStatsAsync consistent_timer consistent_settle)

lemma settle_settle: "settle E' (settle E st) = settle E st"
  by (rule settle_nil) (simp add: settle_frame)

lemma settle_miss: "objectStore (settle E (miss st)) = objectStore (settle E st)"
  by (rule settle_cong) (simp_all add: miss_def)

lemma settle_deferredRemove:
  "objectStore (settle E (deferredRemoveExpiredEntry k st)) = objectStore (settle E st)"
  by (rule settle_cong)
     (simp_all add: deferredRemoveExpiredEntry_def scheduleDeferredProcessing_def)

lemma settle_ensureInitialized:
  "objectStore (settle E' (snd (ensureInitialized E st))) = objectStore (settle E' st)"
  by (rule settle_cong) (simp_all add: ensureInitialized_frame)

subsection \<open>Expired entries\<close>

lemma get_expired:
  assumes op: "db st" and ck: "generateCacheKeySync source pageNumber = Inr k"
    and found: "lookup k (objectStore (settle E st)) = Some entry"
    and expired: "expiresAt entry < now1"
  shows "(\<forall>c. fst (IndexedDbCache_get E now1 now2 source pageNumber st) \<noteq> Fulfilled (Some c))
    \<and> missCount (snd (IndexedDbCache_get E now1 now2 source pageNumber st)) = missCount st + 1
    \<and> hitCount (snd (IndexedDbCache_get E now1 now2 source pageNumber st)) = hitCount st
    \<and> (fails E GetReq = None \<longrightarrow>
          fst (IndexedDbCache_get E now1 now2 source pageNumber st) = Fulfilled None)
    \<and> lookup k (objectStore (settle E
          (snd (IndexedDbCache_get E now1 now2 source pageNumber st)))) = Some entry
    \<and> (fails E Transaction = None \<and> fails E GetReq = None \<longrightarrow>
          lookup k (objectStore (snd (IndexedDbCache_get E now1 now2 source pageNumber st)))
            = Some entry
        \<and> (expiresAt entry \<le> now2 \<longrightarrow>
              (''remove:'' @ k) \<in> set (deferredOperations
                  (snd (IndexedDbCache_get E now1 now2 source pageNumber st)))))"
proof -
  from found have ke: "key entry = k" by (simp add: lookup_key)
  show ?thesis
  proof (cases "fails E Transaction")
    case (Some e)
    have r: "IndexedDbCache_get E now1 now2 source pageNumber st = (Fulfilled None, miss st)"
      using op ck Some by (simp add: IndexedDbCache_get_def ensureInitialized_open)
    show ?thesis
      unfolding r using found Some by (simp add: settle_miss) (simp add: miss_def)
  next
    case None
    note tr = this
    show ?thesis
    proof (cases "fails E GetReq")
      case (Some e)
      have r: "IndexedDbCache_get E now1 now2 source pageNumber st
                 = (Rejected e, miss (settle E st))"
        using op ck tr Some by (simp add: IndexedDbCache_get_def ensureInitialized_open Let_def)
      show ?thesis
        unfolding r using found Some
        by (simp add: settle_miss settle_settle) (simp add: miss_def settle_frame)
    next
      case None
      have r: "IndexedDbCache_get E now1 now2 source pageNumber st
          = (Fulfilled None,
             if expiresAt entry \<le> now2
             then deferredRemoveExpiredEntry k (miss (settle E st))
             else miss (settle E st))"
        using op ck tr None found expired ke
        by (simp add: IndexedDbCache_get_def ensureInitialized_open Let_def)
      have m: "objectStore (miss (settle E st)) = objectStore (settle E st)"
        "missCount (miss (settle E st)) = missCount st + 1"
        "hitCount (miss (settle E st)) = hitCount st"
        by (simp_all add: miss_def settle_frame)
      show ?thesis
        unfolding r using found tr None deferredRemove_frame(4) [of k "miss (settle E st)"]
        by (simp add: deferredRemove_frame(1-3) m settle_deferredRemove settle_miss
              settle_settle)
    qed
  qed
qed

text \<open>
  C6. Take a store reached from the constructor by any calls, and an entry that the
  database holds under the key of a \<open>get\<close> (once the evictions still pending have run)
  and that expired before the call. Whatever the engine does, the call never resolves to
  a content, counts exactly one miss and no hit, and resolves to absent unless the
  \<open>get\<close> request itself fails. The entry is still in the database afterwards; when the
  store is initialized and the requests succeed, its removal has only been queued.
\<close>

theorem C6_expired_entry_is_a_miss:
  assumes r: "reachable st" and ck: "generateCacheKeySync source pageNumber = Inr k"
    and found: "lookup k (objectStore (settle E st)) = Some entry"
    and expired: "expiresAt entry < now1"
  shows "(\<forall>c. fst (IndexedDbCache_get E now1 now2 source pageNumber st) \<noteq> Fulfilled (Some c))
    \<and> missCount (snd (IndexedDbCache_get E now1 now2 source pageNumber st)) = missCount st + 1
    \<and> hitCount (snd (IndexedDbCache_get E now1 now2 source pageNumber st)) = hitCount st
    \<and> (fails E GetReq = None \<longrightarrow>
          fst (IndexedDbCache_get E now1 now2 source pageNumber st) = Fulfilled None)
    \<and> lookup k (objectStore (settle E
          (snd (IndexedDbCache_get E now1 now2 source pageNumber st)))) = Some entry
    \<and> (fst (ensureInitialized E st) = Fulfilled ()
         \<and> fails E Transaction = None \<and> fails E GetReq = None \<longrightarrow>
          lookup k (objectStore (snd (IndexedDbCache_get E now1 now2 source pageNumber st)))
            = Some entry
        \<and> (expiresAt entry \<le> now2 \<longrightarrow>
              (''remove:'' @ k) \<in> set (deferredOperations
                  (snd (IndexedDbCache_get E now1 now2 source pageNumber st)))))"
proof -
  from r have c: "consistent st" by (rule reachable_consistent)
  obtain r0 st1 where e: "ensureInitialized E st = (r0, st1)"
    by (cases "ensureInitialized E st")
  from ensureInitialized_frame(3,4) [of E st] e
  have fr: "hitCount st1 = hitCount st" "missCount st1 = missCount st" by simp_all
  from settle_ensureInitialized [of E E st] e found
  have found1: "lookup k (objectStore (settle E st1)) = Some entry" by simp
  show ?thesis
  proof (cases r0)
    case (Rejected x)
    have g: "IndexedDbCache_get E now1 now2 source pageNumber st = (Fulfilled None, miss st1)"
      by (simp add: IndexedDbCache_get_def e Rejected)
    show ?thesis
      unfolding g using found1 fr e Rejected by (simp add: settle_miss) (simp add: miss_def)
  next
    case (Fulfilled u)
    from ensureInitialized_db [OF c, of E] e Fulfilled have db1: "db st1" by simp
    have g: "IndexedDbCache_get E now1 now2 source pageNumber st
               = IndexedDbCache_get E now1 now2 source pageNumber st1"
      by (simp add: IndexedDbCache_get_def e Fulfilled ensureInitialized_open [OF db1])
    from get_expired [OF db1 ck found1 expired, of now2] show ?thesis
      unfolding g fr by simp
  qed
qed

theorem C6_expired_entry_is_a_miss_witness:
  "generateCacheKeySync (SString ''a.pdf'') (Integer False 1) = Inr ''a.pdf:1''
   \<and> lookup ''a.pdf:1'' (objectStore (settle working
         (new_IndexedDbCache 7 1000 [record_at ''a.pdf:1'' 10])))
       = Some (record_at ''a.pdf:1'' 10)
   \<and> expiresAt (record_at ''a.pdf:1'' 10) < 2000
   \<and> fst (IndexedDbCache_get working 2000 2001 (SString ''a.pdf'') (Integer False 1)
         (new_IndexedDbCache 7 1000 [record_at ''a.pdf:1'' 10]))
       = Fulfilled None
   \<and> missCount (snd (IndexedDbCache_get working 2000 2001 (SString ''a.pdf'') (Integer False 1)
         (new_IndexedDbCache 7 1000 [record_at ''a.pdf:1'' 10])))
       = 1
   \<and> lookup ''a.pdf:1'' (objectStore (snd (IndexedDbCache_get working 2000 2001
         (SString ''a.pdf'') (Integer False 1)
         (new_IndexedDbCache 7 1000 [record_at ''a.pdf:1'' 10]))))
       = Some (record_at ''a.pdf:1'' 10)"
proof -
  let ?st = "new_IndexedDbCache 7 1000 [record_at ''a.pdf:1'' 10]"
  have "store_ok [record_at ''a.pdf:1'' 10]" by (simp add: store_ok_def)
  then have h0: "reachable ?st" by (rule reachable.created)
  have h2: "generateCacheKeySync (SString ''a.pdf'') (Integer False 1) = Inr ''a.pdf:1''"
    by code_simp
  have h3: "lookup ''a.pdf:1'' (objectStore (settle working ?st)) = Some (record_at ''a.pdf:1'' 10)"
    by code_simp
  have h4: "expiresAt (record_at ''a.pdf:1'' 10) < 2000" by code_simp
  have m: "missCount ?st = 0" by code_simp
  have i: "fst (ensureInitialized working ?st) = Fulfilled ()" by code_simp
  have f: "fails working Transaction = None \<and> fails working GetReq = None"
    by (simp add: working_def)
  from C6_expired_entry_is_a_miss [OF h0 h2 h3 h4, of 2001] f m i
  have "fst (IndexedDbCache_get working 2000 2001 (SString ''a.pdf'') (Integer False 1) ?st)
          = Fulfilled None
      \<and> missCount (snd (IndexedDbCache_get working 2000 2001 (SString ''a.pdf'')
            (Integer False 1) ?st)) = 1
      \<and> lookup ''a.pdf:1'' (objectStore (snd (IndexedDbCache_get working 2000 2001
            (SString ''a.pdf'') (Integer False 1) ?st)))
          = Some (record_at ''a.pdf:1'' 10)"
    by simp
  with h2 h3 h4 show ?thesis by blast
qed

text \<open>
  In that example the deferred removal, once the timer runs it, deletes the entry.
\<close>

lemma deferred_removal_example:
  "deferredOperations (snd (IndexedDbCache_get working 2000 2001 (SString ''a.pdf'')
       (Integer False 1) (new_IndexedDbCache 7 1000 [record_at ''a.pdf:1'' 10])))
     = [''remove:a.pdf:1'']
   \<and> lookup ''a.pdf:1'' (objectStore (processDeferredOperations working 3000
       (snd (IndexedDbCache_get working 2000 2001 (SString ''a.pdf'') (Integer False 1)
         (new_IndexedDbCache 7 1000 [record_at ''a.pdf:1'' 10]))))) = None"
  by code_simp

subsection \<open>Overwriting\<close>

lemma evictIfNeeded_open:
  assumes "db st" and "fails E Transaction = None"
  shows "objectStore (evictIfNeeded E st) = objectStore (settle E st)"
    and "expirationMs (evictIfNeeded E st) = expirationMs st"
    and "maxEntries (evictIfNeeded E st) = maxEntries st"
    and "evictions (evictIfNeeded E st)
           = (if fails E CountReq = None \<and> maxEntries st \<le> length (objectStore (settle E st))
              then [maxEntries st div 10] else [])"
    and "db (evictIfNeeded E st)"
  using assms by (simp_all add: evictIfNeeded_def Let_def settle_frame split: option.splits)

lemma set_open:
  assumes "db st" and "generateCacheKeySync source p = Inr k"
    and "fails E Transaction = None" and "fails E GetReq = None" and "fails E PutReq = None"
  shows "IndexedDbCache_set E now source p c st
     = (Fulfilled (),
        (evictIfNeeded E st)
          \<lparr>objectStore := put \<lparr>content = c, lastAccessed = now, accessCount = 1, key = k,
                                 createdAt = now, expiresAt = now + expirationMs st\<rparr>
                              (objectStore (settle E st)),
           cachedCount := (if lookup k (objectStore (settle E st)) = None
                           then cachedCount (evictIfNeeded E st) + 1
                           else cachedCount (evictIfNeeded E st))\<rparr>)"
  using assms evictIfNeeded_open(1) [OF assms(1,3)]
  by (simp add: IndexedDbCache_set_def ensureInitialized_open Let_def)

lemma set_after_init:
  assumes "ensureInitialized E st = (Fulfilled (), st1)" and "db st1"
  shows "IndexedDbCache_set E now source p c st = IndexedDbCache_set E now source p c st1"
  by (simp add: IndexedDbCache_set_def assms ensureInitialized_open [OF assms(2)])

lemma init_cases:
  assumes "reachable st" and "fst (ensureInitialized E st) = Fulfilled ()"
  obtains st1 where "ensureInitialized E st = (Fulfilled (), st1)" and "db st1"
    and "consistent st1" and "objectStore (settle E' st1) = objectStore (settle E' st)"
    and "maxEntries st1 = maxEntries st" and "expirationMs st1 = expirationMs st"
proof -
  from assms(1) have c: "consistent st" by (rule reachable_consistent)
  obtain r0 st1 where e: "ensureInitialized E st = (r0, st1)"
    by (cases "ensureInitialized E st")
  with assms(2) have e1: "ensureInitialized E st = (Fulfilled (), st1)" by simp
  from ensureInitialized_db [OF c assms(2)] e have "db st1" by simp
  moreover from ensureInitialized_consistent [OF c, of E] e have "consistent st1" by simp
  moreover from settle_ensureInitialized [of E' E st] e
  have "objectStore (settle E' st1) = objectStore (settle E' st)" by simp
  moreover from ensureInitialized_frame(5,6) [of E st] e
  have "maxEntries st1 = maxEntries st" "expirationMs st1 = expirationMs st" by simp_all
  ultimately show ?thesis using e1 that by blast
qed




subsection \<open>Batch eviction\<close>

lemma settle_single:
  assumes "evictions st = [n]"
  shows "settle working st = evictOldest working n (st\<lparr>evictions := []\<rparr>)"
  using assms by (simp add: settle_def)

lemma evictOldest_working:
  "objectStore (evictOldest working n st)
     = fst (evict_cursor (index_lastAccessed (objectStore st)) n 0 (objectStore st))"
  by (simp add: evictOldest_def working_def split: prod.splits)

lemma getStatsAsync_working:
  assumes "db st"
  shows "fst (IndexedDbCache_getStatsAsync working st)
     = Fulfilled \<lparr>stats_size = length (objectStore (settle working st)),
                  stats_maxSize = maxEntries st,
                  totalRequests = hitCount st + missCount st,
                  stats_hitCount = hitCount st, stats_missCount = missCount st\<rparr>"
  using assms
  by (simp add: IndexedDbCache_getStatsAsync_def ensureInitialized_open)
     (simp add: working_def Let_def settle_frame)

text \<open>
  C3 (amended). Take a persistent store reached from the constructor by any calls, with
  maximum entry count \<open>M\<close>, whose initialization succeeds, an engine that completes every
  request, and a \<open>set\<close> whose key can be derived. Let \<open>c\<close> be the authoritative count
  before the insert, once the evictions still pending have run, with
  \<open>M \<le> c < M + M div 10\<close> (so \<open>M\<close> is at least ten). The \<open>set\<close> then starts one batch
  eviction of \<open>M div 10\<close> entries. Once it has run, the store holds \<open>M div 10\<close> entries
  fewer than after the write, every evicted entry was last accessed no later than every
  entry kept, and the count that \<open>getStatsAsync\<close> reports is at most \<open>M\<close>.
\<close>

theorem C3_batch_eviction_bound:
  assumes r: "reachable st" and init: "fst (ensureInitialized working st) = Fulfilled ()"
    and ck: "generateCacheKeySync source p = Inr k"
    and full: "maxEntries st \<le> length (objectStore (settle working st))"
    and room: "length (objectStore (settle working st)) < maxEntries st + maxEntries st div 10"
  shows "let st1 = snd (IndexedDbCache_set working now source p c st);
             st2 = settle working st1
         in fst (IndexedDbCache_set working now source p c st) = Fulfilled ()
          \<and> evictions st1 = [maxEntries st div 10]
          \<and> length (objectStore st2) + maxEntries st div 10 = length (objectStore st1)
          \<and> set (objectStore st2) \<subseteq> set (objectStore st1)
          \<and> (\<forall>x \<in> set (objectStore st1) - set (objectStore st2).
                \<forall>y \<in> set (objectStore st2). lastAccessed x \<le> lastAccessed y)
          \<and> length (objectStore st2) \<le> maxEntries st
          \<and> (\<exists>s. fst (IndexedDbCache_getStatsAsync working st1) = Fulfilled s
                 \<and> stats_size s = length (objectStore st2)
                 \<and> stats_size s \<le> stats_maxSize s)"
proof -
  from r init obtain st0 where e: "ensureInitialized working st = (Fulfilled (), st0)"
    and db0: "db st0" and c0: "consistent st0"
    and os: "objectStore (settle working st0) = objectStore (settle working st)"
    and mx: "maxEntries st0 = maxEntries st" and ex: "expirationMs st0 = expirationMs st"
    by (rule init_cases)
  define entry where "entry = \<lparr>content = c, lastAccessed = now, accessCount = 1, key = k,
                                 createdAt = now, expiresAt = now + expirationMs st0\<rparr>"
  define st1 where "st1 = snd (IndexedDbCache_set working now source p c st)"
  define st2 where "st2 = settle working st1"
  define n where "n = maxEntries st div 10"
  define s0 where "s0 = objectStore (settle working st)"
  define s1 where "s1 = put entry s0"
  have w: "fails working Transaction = None" "fails working GetReq = None"
    "fails working PutReq = None" "fails working CountReq = None"
    by (simp_all add: working_def)
  note sw = set_open [OF db0 ck w(1-3), of now c, folded entry_def]
  note ev = evictIfNeeded_open [OF db0 w(1)]
  have res: "IndexedDbCache_set working now source p c st
               = IndexedDbCache_set working now source p c st0"
    using e db0 by (rule set_after_init)
  from c0 have ok: "store_ok s0"
    unfolding s0_def os [symmetric] by (simp add: consistent_def store_ok_settle)
  have os1: "objectStore st1 = s1"
    by (simp add: st1_def res sw os s1_def s0_def)
  have ev1: "evictions st1 = [n]"
    using full by (simp add: st1_def res sw ev(4) w(4) os mx n_def)
  have db1: "db st1"
    by (simp add: st1_def res sw ev(5))
  have mx1: "maxEntries st1 = maxEntries st"
    by (simp add: st1_def res sw ev(3) mx)
  have ok1: "store_ok s1" unfolding s1_def using ok by (rule store_ok_put)
  have ls1: "length s1 \<le> Suc (length s0)" "length s0 \<le> length s1"
    by (simp_all add: s1_def length_put [OF ok])
  have os2: "objectStore st2 = fst (evict_cursor (index_lastAccessed s1) n 0 s1)"
    by (simp add: st2_def settle_single [OF ev1] evictOldest_working os1)
  from store_ok_distinct [OF ok1] have ds1: "distinct s1" by (simp add: distinct_map)
  note idx = index_lastAccessed_props(1) [of s1] index_lastAccessed_props(2) [OF ds1]
  note ec = evict_cursor_length [OF ok1 idx, of n]
  from full have full0: "maxEntries st \<le> length s0" by (simp add: s0_def)
  from room have room0: "length s0 < maxEntries st + maxEntries st div 10" by (simp add: s0_def)
  have nle: "n \<le> length s1" using full0 ls1 by (simp add: n_def)
  have len: "length (objectStore st2) + n = length s1"
    using ec(1) nle by (simp add: os2)
  have sub: "set (objectStore st2) \<subseteq> set s1"
    using ec(3) by (auto simp: os2)
  have old: "lastAccessed x \<le> lastAccessed y"
    if "x \<in> set s1 - set (objectStore st2)" and "y \<in> set (objectStore st2)" for x y
  proof -
    from that ec(3) have x: "x \<in> set (take n (index_lastAccessed s1))"
      and y: "y \<in> set (index_lastAccessed s1)" "y \<notin> set (take n (index_lastAccessed s1))"
      by (auto simp: os2 idx(1))
    from sorted_take_le [OF index_lastAccessed_props(3) x y] show ?thesis .
  qed
  have bound: "length (objectStore st2) \<le> maxEntries st"
    using len ls1 room0 by (simp add: n_def)
  have stats: "fst (IndexedDbCache_getStatsAsync working st1)
     = Fulfilled \<lparr>stats_size = length (objectStore st2),
                  stats_maxSize = maxEntries st,
                  totalRequests = hitCount st1 + missCount st1,
                  stats_hitCount = hitCount st1, stats_missCount = missCount st1\<rparr>"
    by (simp add: getStatsAsync_working [OF db1] st2_def mx1)
  have ful: "fst (IndexedDbCache_set working now source p c st) = Fulfilled ()"
    by (simp add: res sw)
  from ful ev1 len sub old bound stats show ?thesis
    unfolding Let_def st1_def [symmetric] st2_def [symmetric] os1 n_def [symmetric]
    by auto
qed

text \<open>
  C3 as stated, for every count at or above the maximum, fails when the database holds
  more than a tenth above it: with \<open>M = 10\<close> and twelve entries, left by a store opened
  with a larger maximum, a \<open>set\<close> of a new key evicts one entry and the count is twelve
  again, before the call and after its eviction.
\<close>

theorem C3_count_stays_above_maximum:
  "fst (IndexedDbCache_getStatsAsync working
          (snd (ensureInitialized working (new_IndexedDbCache 7 10 twelve_records))))
     = Fulfilled \<lparr>stats_size = 12, stats_maxSize = 10, totalRequests = 0,
                  stats_hitCount = 0, stats_missCount = 0\<rparr>
   \<and> fst (IndexedDbCache_getStatsAsync working
          (snd (IndexedDbCache_set working 50 (SString ''n.pdf'') (Integer False 1) 0
             (snd (ensureInitialized working (new_IndexedDbCache 7 10 twelve_records))))))
     = Fulfilled \<lparr>stats_size = 12, stats_maxSize = 10, totalRequests = 0,
                  stats_hitCount = 0, stats_missCount = 0\<rparr>"
  by code_simp

text \<open>
  The example for C3 is a second \<open>set\<close> right after a first one at the maximum, whose
  eviction is still pending: eleven records in the database, ten once that eviction has
  run.
\<close>

theorem C3_batch_eviction_bound_witness:
  "fst (ensureInitialized working
          (snd (IndexedDbCache_set working 40 (SString ''m.pdf'') (Integer False 1) 0
                  (new_IndexedDbCache 7 10 (take 10 twelve_records))))) = Fulfilled ()
   \<and> evictions (snd (IndexedDbCache_set working 40 (SString ''m.pdf'') (Integer False 1) 0
                  (new_IndexedDbCache 7 10 (take 10 twelve_records)))) = [1]
   \<and> length (objectStore (snd (IndexedDbCache_set working 40 (SString ''m.pdf'')
                  (Integer False 1) 0 (new_IndexedDbCache 7 10 (take 10 twelve_records))))) = 11
   \<and> generateCacheKeySync (SString ''n.pdf'') (Integer False 1) = Inr ''n.pdf:1''
   \<and> maxEntries (snd (IndexedDbCache_set working 40 (SString ''m.pdf'') (Integer False 1) 0
                  (new_IndexedDbCache 7 10 (take 10 twelve_records)))) = 10
   \<and> length (objectStore (settle working
         (snd (IndexedDbCache_set working 40 (SString ''m.pdf'') (Integer False 1) 0
                  (new_IndexedDbCache 7 10 (take 10 twelve_records)))))) = 10
   \<and> length (objectStore (settle working
         (snd (IndexedDbCache_set working 50 (SString ''n.pdf'') (Integer False 1) 0
            (snd (IndexedDbCache_set working 40 (SString ''m.pdf'') (Integer False 1) 0
                  (new_IndexedDbCache 7 10 (take 10 twelve_records))))))))
        \<le> 10"
proof -
  let ?st = "snd (IndexedDbCache_set working 40 (SString ''m.pdf'') (Integer False 1) 0
                  (new_IndexedDbCache 7 10 (take 10 twelve_records)))"
  have "store_ok (take 10 twelve_records)" by code_simp
  then have "reachable (new_IndexedDbCache 7 10 (take 10 twelve_records))"
    by (rule reachable.created)
  then have h0: "reachable ?st" by (rule reachable.after_set)
  have h1: "fst (ensureInitialized working ?st) = Fulfilled ()" by code_simp
  have q: "evictions ?st = [1]" by code_simp
  have l: "length (objectStore ?st) = 11" by code_simp
  have h2: "generateCacheKeySync (SString ''n.pdf'') (Integer False 1) = Inr ''n.pdf:1''"
    by code_simp
  have m: "maxEntries ?st = 10" by code_simp
  have s: "length (objectStore (settle working ?st)) = 10" by code_simp
  have h3: "maxEntries ?st \<le> length (objectStore (settle working ?st))"
    unfolding m s by simp
  have h4: "length (objectStore (settle working ?st)) < maxEntries ?st + maxEntries ?st div 10"
    unfolding m s by simp
  from C3_batch_eviction_bound [OF h0 h1 h2 h3 h4, of 50 0]
  have "length (objectStore (settle working
         (snd (IndexedDbCache_set working 50 (SString ''n.pdf'') (Integer False 1) 0 ?st))))
        \<le> 10"
    unfolding m by (simp add: Let_def)
  with h1 q l h2 m s show ?thesis by blast
qed

section \<open>Properties of the preload\<close>

lemma generateCacheKey_of_sourceKey:
  "sourceKey H source = Inr sk \<Longrightarrow> generateCacheKey H source p = Inr (sk @ '':'' @ toString p)"
  by (simp add: generateCacheKey_def)

lemma get_absent:
  assumes "generateCacheKey H source p = Inr ck" and "\<not> has (cache c) ck"
  shows "TextLayerCache_get H now source p c = (Fulfilled None, c\<lparr>missCount := missCount c + 1\<rparr>)"
  using assms by (simp add: TextLayerCache_get_def has_def)

lemma set_fulfilled:
  assumes "generateCacheKey H source p = Inr ck"
  shows "fst (TextLayerCache_set H now source p x c) = Fulfilled ()"
  using assms by (simp add: TextLayerCache_set_def Let_def)

lemma probe_all_absent:
  assumes sk: "sourceKey (digest_fn env) source = Inr sk"
    and fresh: "\<forall>p \<in> set ps. \<not> has (cache (textLayerCache w)) (sk @ '':'' @ toString p)"
  shows "\<exists>w'. probe env source ps acc found w = (Inr (acc @ ps, found), w')
            \<and> cache (textLayerCache w') = cache (textLayerCache w)
            \<and> trace w' = trace w @ map CacheGet ps"
  using fresh
proof (induction ps arbitrary: acc w)
  case Nil
  then show ?case by simp
next
  case (Cons p ps)
  let ?c = "(textLayerCache w)\<lparr>missCount := missCount (textLayerCache w) + 1\<rparr>"
  let ?w = "log_event (CacheGet p) (w\<lparr>textLayerCache := ?c\<rparr>)"
  from Cons.prems have a: "\<not> has (cache (textLayerCache w)) (sk @ '':'' @ toString p)" by simp
  have g: "TextLayerCache_get (digest_fn env) now source p (textLayerCache w)
             = (Fulfilled None, ?c)" for now
    using get_absent [OF generateCacheKey_of_sourceKey [OF sk] a] .
  have step: "probe env source (p # ps) acc found w = probe env source ps (acc @ [p]) found ?w"
    by (simp add: g)
  have "\<forall>q \<in> set ps. \<not> has (cache (textLayerCache ?w)) (sk @ '':'' @ toString q)"
    using Cons.prems by (simp add: log_event_def)
  from Cons.IH [OF this, of "acc @ [p]"]
  obtain w' where w': "probe env source ps (acc @ [p]) found ?w = (Inr ((acc @ [p]) @ ps, found), w')"
      "cache (textLayerCache w') = cache (textLayerCache ?w)"
      "trace w' = trace ?w @ map CacheGet ps"
    by blast
  then show ?case
    unfolding step by (intro exI [of _ w']) (simp add: log_event_def)
qed

lemma call_onProgress_quiet:
  assumes "\<forall>f. onProgress options = Some f \<longrightarrow> (\<forall>n m. f n m = None)"
  shows "fst (call_onProgress options n m w) = None"
    and "set (trace w) \<subseteq> set (trace (snd (call_onProgress options n m w)))"
  using assms by (auto simp: call_onProgress_def log_event_def split: option.splits)

lemma finish_page_result:
  assumes sk: "sourceKey (digest_fn env) source = Inr sk"
    and quiet: "\<forall>f. onProgress options = Some f \<longrightarrow> (\<forall>n m. f n m = None)"
  shows "\<exists>t' w'. finish_page env options source n p t w = (t', w')
     \<and> settled_ok t' = settled_ok t @ [\<not> isl (getTextContent env p)]
     \<and> page_errors t' = page_errors t @ failures env [p]
     \<and> set (trace w) \<subseteq> set (trace w')
     \<and> (\<not> isl (getTextContent env p) \<longrightarrow> CacheSet p \<in> set (trace w'))"
proof (cases "getTextContent env p")
  case (Inl e)
  then show ?thesis
    using call_onProgress_quiet(2) [OF quiet, where w = w and n = "completed t + 1" and m = n]
    by (simp add: finish_page_def task_fails_def failures_def)
next
  case (Inr x)
  obtain r c where rc: "TextLayerCache_set (digest_fn env) (clock env (length (trace w))) source
                     p x (textLayerCache w) = (r, c)"
    by (cases "TextLayerCache_set (digest_fn env) (clock env (length (trace w))) source
                     p x (textLayerCache w)")
  from set_fulfilled [OF generateCacheKey_of_sourceKey [OF sk], of "clock env (length (trace w))"
      p x "textLayerCache w"] rc
  have r: "r = Fulfilled ()" by simp
  let ?w1 = "log_event (CacheSet p) (w\<lparr>textLayerCache := c\<rparr>)"
  obtain o1 w2 where cp: "call_onProgress options (completed t + 1) n ?w1 = (o1, w2)"
    by (cases "call_onProgress options (completed t + 1) n ?w1")
  from call_onProgress_quiet [OF quiet, where n = "completed t + 1" and m = n and w = ?w1] cp
  have o1: "o1 = None" and tr: "set (trace ?w1) \<subseteq> set (trace w2)" by simp_all
  have "finish_page env options source n p t w
          = (t\<lparr>completed := completed t + 1, settled_ok := settled_ok t @ [True]\<rparr>, w2)"
    using Inr rc r cp o1 by (simp add: finish_page_def Let_def)
  moreover have "set (trace w) \<subseteq> set (trace w2)" "CacheSet p \<in> set (trace w2)"
    using tr by (auto simp: log_event_def)
  ultimately show ?thesis
    using Inr by (simp add: failures_def)
qed

lemma failures_append: "failures env (ps @ qs) = failures env ps @ failures env qs"
  by (simp add: failures_def)

lemma finish_pages_result:
  assumes sk: "sourceKey (digest_fn env) source = Inr sk"
    and quiet: "\<forall>f. onProgress options = Some f \<longrightarrow> (\<forall>n m. f n m = None)"
  shows "\<exists>t' w'. finish_pages env options source n ps t w = (t', w')
     \<and> settled_ok t' = settled_ok t @ map (\<lambda>p. \<not> isl (getTextContent env p)) ps
     \<and> page_errors t' = page_errors t @ failures env ps
     \<and> set (trace w) \<subseteq> set (trace w')
     \<and> (\<forall>p \<in> set ps. \<not> isl (getTextContent env p) \<longrightarrow> CacheSet p \<in> set (trace w'))"
proof (induction ps arbitrary: t w)
  case Nil
  then show ?case by (simp add: failures_def)
next
  case (Cons p ps)
  from finish_page_result [OF sk quiet, of n p t w]
  obtain t1 w1 where 1: "finish_page env options source n p t w = (t1, w1)"
      "settled_ok t1 = settled_ok t @ [\<not> isl (getTextContent env p)]"
      "page_errors t1 = page_errors t @ failures env [p]"
      "set (trace w) \<subseteq> set (trace w1)"
      "\<not> isl (getTextContent env p) \<longrightarrow> CacheSet p \<in> set (trace w1)"
    by blast
  from Cons.IH [of t1 w1]
  obtain t' w' where 2: "finish_pages env options source n ps t1 w1 = (t', w')"
      "settled_ok t' = settled_ok t1 @ map (\<lambda>p. \<not> isl (getTextContent env p)) ps"
      "page_errors t' = page_errors t1 @ failures env ps"
      "set (trace w1) \<subseteq> set (trace w')"
      "\<forall>p \<in> set ps. \<not> isl (getTextContent env p) \<longrightarrow> CacheSet p \<in> set (trace w')"
    by blast
  have f: "failures env (p # ps) = failures env [p] @ failures env ps"
    using failures_append [of env "[p]" ps] by simp
  show ?case
    using 1 2 f by (intro exI [of _ t'] exI [of _ w']) auto
qed

lemma mset_completion_order: "mset (completion_order env ps) = mset ps"
proof -
  have "mset (completion_order env ps) = mset (map (\<lambda>i. ps ! i) [0..<length ps])"
    unfolding completion_order_def mset_map by simp
  then show ?thesis by (simp add: map_nth)
qed

lemma trace_requests:
  "trace (foldl (\<lambda>w1 pageNum. log_event (GetPage pageNum) w1) w ps) = trace w @ map GetPage ps"
  by (induction ps arbitrary: w) (simp_all add: log_event_def)

lemma load_pages_result:
  assumes sk: "sourceKey (digest_fn env) source = Inr sk"
    and quiet: "\<forall>f. onProgress options = Some f \<longrightarrow> (\<forall>n m. f n m = None)"
  shows "\<exists>t' w'. load_pages env options source ps w = (t', w')
     \<and> length (filter (\<lambda>ok. ok) (settled_ok t'))
         = length (filter (\<lambda>p. \<not> isl (getTextContent env p)) ps)
     \<and> length (filter (\<lambda>ok. \<not> ok) (settled_ok t'))
         = length (filter (\<lambda>p. isl (getTextContent env p)) ps)
     \<and> page_errors t' = failures env (completion_order env ps)
     \<and> (\<forall>p \<in> set ps. GetPage p \<in> set (trace w'))
     \<and> (\<forall>p \<in> set ps. \<not> isl (getTextContent env p) \<longrightarrow> CacheSet p \<in> set (trace w'))"
proof -
  let ?qs = "completion_order env ps"
  let ?w = "foldl (\<lambda>w1 pageNum. log_event (GetPage pageNum) w1) w ps"
  from finish_pages_result [OF sk quiet, of "length ps" ?qs
      "\<lparr>completed = 0, settled_ok = [], page_errors = []\<rparr>" ?w]
  obtain t' w' where r: "finish_pages env options source (length ps) ?qs
                           \<lparr>completed = 0, settled_ok = [], page_errors = []\<rparr> ?w = (t', w')"
      and ok: "settled_ok t' = map (\<lambda>p. \<not> isl (getTextContent env p)) ?qs"
      and er: "page_errors t' = failures env ?qs"
      and tr: "set (trace ?w) \<subseteq> set (trace w')"
      and cs: "\<forall>p \<in> set ?qs. \<not> isl (getTextContent env p) \<longrightarrow> CacheSet p \<in> set (trace w')"
    by auto
  have m: "mset ?qs = mset ps" by (rule mset_completion_order)
  then have s: "set ?qs = set ps" by (rule mset_eq_setD)
  have cnt: "length (filter P ?qs) = length (filter P ps)" for P
  proof -
    have "mset (filter P ?qs) = mset (filter P ps)" by (simp add: m)
    then show ?thesis by (rule mset_eq_length)
  qed
  have n1: "length (filter (\<lambda>ok. ok) (settled_ok t'))
              = length (filter (\<lambda>p. \<not> isl (getTextContent env p)) ps)"
    using cnt [of "\<lambda>p. \<not> isl (getTextContent env p)"] by (simp add: ok filter_map comp_def)
  have n2: "length (filter (\<lambda>ok. \<not> ok) (settled_ok t'))
              = length (filter (\<lambda>p. isl (getTextContent env p)) ps)"
    using cnt [of "\<lambda>p. isl (getTextContent env p)"] by (simp add: ok filter_map comp_def)
  have gp: "\<forall>p \<in> set ps. GetPage p \<in> set (trace w')"
    using tr by (auto simp: trace_requests)
  from r n1 n2 er gp cs s show ?thesis
    by (simp add: load_pages_def)
qed

lemma preload_body_settles:
  assumes ne: "pages \<noteq> []"
    and doc: "(case source of SDocument d \<Rightarrow> Inr d | _ \<Rightarrow> getDocument env) = Inr doc"
    and range: "\<forall>p \<in> set pages. page_le p (numPages doc)"
    and sk: "sourceKey (digest_fn env) source = Inr sk"
    and fresh: "skipCached options \<longrightarrow>
                  (\<forall>p \<in> set pages. \<not> has (cache (textLayerCache w)) (sk @ '':'' @ toString p))"
    and quiet: "\<forall>f. onProgress options = Some f \<longrightarrow> (\<forall>n m. f n m = None)"
  shows "\<exists>w'. preload_body env options source pages w
           = (Fulfilled
                \<lparr>success = (filter (\<lambda>p. isl (getTextContent env p)) pages = []),
                 cached = length (filter (\<lambda>p. \<not> isl (getTextContent env p)) pages),
                 failed = length (filter (\<lambda>p. isl (getTextContent env p)) pages),
                 totalPages = length pages,
                 errors = (if failures env (completion_order env pages) \<noteq> []
                           then Some (failures env (completion_order env pages)) else None)\<rparr>,
              w')
         \<and> (\<forall>p \<in> set pages. GetPage p \<in> set (trace w'))
         \<and> (\<forall>p \<in> set pages. \<not> isl (getTextContent env p) \<longrightarrow> CacheSet p \<in> set (trace w'))"
proof -
  define w1 where "w1 = (case source of SDocument d \<Rightarrow> w | _ \<Rightarrow> log_event GetDocument w)"
  have acq: "(case source of
                SDocument d \<Rightarrow> (Inr d, w)
              | _ \<Rightarrow> (getDocument env, log_event GetDocument w)) = (Inr doc, w1)"
    using doc by (cases source) (simp_all add: w1_def)
  have c1: "cache (textLayerCache w1) = cache (textLayerCache w)"
    by (cases source) (simp_all add: w1_def log_event_def)
  have valid: "filter (\<lambda>p. page_le p (numPages doc)) pages = pages"
    using range by simp
  have "\<not> page_gt p (numPages doc)" if "p \<in> set pages" for p
    using range that by (cases p) (auto simp: page_gt_def page_le_def)
  then have out: "filter (\<lambda>p. page_gt p (numPages doc)) pages = []"
    by simp
  obtain w3 where pr: "(if skipCached options then probe env source pages [] 0 w1
                        else (Inr (pages, 0), w1)) = (Inr (pages, 0), w3)"
  proof (cases "skipCached options")
    case True
    with fresh c1 have "\<forall>p \<in> set pages. \<not> has (cache (textLayerCache w1)) (sk @ '':'' @ toString p)"
      by simp
    from probe_all_absent [OF sk this, of "[]" 0] True that show ?thesis by auto
  next
    case False
    with that show ?thesis by simp
  qed
  have scrut: "(if skipCached options
                then probe env source (filter (\<lambda>p. page_le p (numPages doc)) pages) [] 0
                       (if filter (\<lambda>p. page_gt p (numPages doc)) pages \<noteq> []
                        then log_event Warn w1 else w1)
                else (Inr (filter (\<lambda>p. page_le p (numPages doc)) pages, 0),
                      if filter (\<lambda>p. page_gt p (numPages doc)) pages \<noteq> []
                      then log_event Warn w1 else w1))
               = (Inr (pages, 0), w3)"
    unfolding valid out using pr by (auto split: if_splits)
  from load_pages_result [OF sk quiet, of pages w3]
  obtain t w4 where lp: "load_pages env options source pages w3 = (t, w4)"
      and n1: "length (filter (\<lambda>ok. ok) (settled_ok t))
              = length (filter (\<lambda>p. \<not> isl (getTextContent env p)) pages)"
      and n2: "length (filter (\<lambda>ok. \<not> ok) (settled_ok t))
              = length (filter (\<lambda>p. isl (getTextContent env p)) pages)"
      and er: "page_errors t = failures env (completion_order env pages)"
      and tr: "\<forall>p \<in> set pages. GetPage p \<in> set (trace w4)"
          "\<forall>p \<in> set pages. \<not> isl (getTextContent env p) \<longrightarrow> CacheSet p \<in> set (trace w4)"
    by auto
  have z: "(length (filter (\<lambda>p. isl (getTextContent env p)) pages) = 0)
             = (filter (\<lambda>p. isl (getTextContent env p)) pages = [])"
    by simp
  have "preload_body env options source pages w
           = (Fulfilled
                \<lparr>success = (filter (\<lambda>p. isl (getTextContent env p)) pages = []),
                 cached = length (filter (\<lambda>p. \<not> isl (getTextContent env p)) pages),
                 failed = length (filter (\<lambda>p. isl (getTextContent env p)) pages),
                 totalPages = length pages,
                 errors = (if failures env (completion_order env pages) \<noteq> []
                           then Some (failures env (completion_order env pages)) else None)\<rparr>,
              w4)"
    unfolding preload_body_def acq Let_def prod.case sum.case scrut
    using ne by (simp add: lp n1 n2 er z valid del: length_0_conv)
  with tr show ?thesis by blast
qed

text \<open>
  C7 (amended). Take a preload of three valid pages (positive integers within the
  document, the source present) in which all three pages are extracted and the extraction
  of exactly one of them rejects, the cache key of the source can be derived, and the
  progress callback, if one is given, does not throw. Whatever the order in which the
  three tasks complete, the call resolves to
  \<open>{success: false, cached: 2, failed: 1, totalPages: 3}\<close> with an error list of exactly one
  entry, which names the failed page with its error. Every page was requested from the
  document and the two others were written to the cache: the failure aborts nothing.
\<close>

theorem C7_one_failure_of_three:
  assumes present: "\<not> falsy source"
    and three: "length pages = 3"
    and valid: "\<forall>p \<in> set pages. \<not> invalidPage p"
    and doc: "(case source of SDocument d \<Rightarrow> Inr d | _ \<Rightarrow> getDocument env) = Inr doc"
    and range: "\<forall>p \<in> set pages. page_le p (numPages doc)"
    and sk: "sourceKey (digest_fn env) source = Inr sk"
    and fresh: "skipCached options \<longrightarrow>
                  (\<forall>p \<in> set pages. \<not> has (cache (textLayerCache w)) (sk @ '':'' @ toString p))"
    and quiet: "\<forall>f. onProgress options = Some f \<longrightarrow> (\<forall>n m. f n m = None)"
    and one: "filter (\<lambda>p. isl (getTextContent env p)) pages = [q]"
    and err: "getTextContent env q = Inl e"
  shows "fst (preloadTextLayerCache env options source (Pages pages) w)
           = Fulfilled \<lparr>success = False, cached = 2, failed = 1, totalPages = 3,
                        errors = Some [\<lparr>page = q, error = e\<rparr>]\<rparr>
         \<and> (\<forall>p \<in> set pages.
               GetPage p \<in> set (trace (snd (preloadTextLayerCache env options source
                                               (Pages pages) w))))
         \<and> (\<forall>p \<in> set pages. p \<noteq> q \<longrightarrow>
               CacheSet p \<in> set (trace (snd (preloadTextLayerCache env options source
                                                (Pages pages) w))))"
proof -
  from three have ne: "pages \<noteq> []" by auto
  from valid have inv: "filter invalidPage pages = []" by simp
  have body: "preloadTextLayerCache env options source (Pages pages) w
                = preload_body env options source pages w"
    using present ne inv by (simp add: preloadTextLayerCache_def)
  have "mset (filter (\<lambda>p. isl (getTextContent env p)) (completion_order env pages))
          = mset (filter (\<lambda>p. isl (getTextContent env p)) pages)"
    by (simp add: mset_completion_order)
  then have "mset (filter (\<lambda>p. isl (getTextContent env p)) (completion_order env pages))
          = {#q#}"
    unfolding one by simp
  then have "filter (\<lambda>p. isl (getTextContent env p)) (completion_order env pages) = [q]"
    by (simp only: mset_single_iff)
  then have f: "failures env (completion_order env pages) = [\<lparr>page = q, error = e\<rparr>]"
    by (simp add: failures_def err)
  have "length (filter (\<lambda>p. isl (getTextContent env p)) pages)
          + length (filter (\<lambda>p. \<not> isl (getTextContent env p)) pages) = length pages"
    by (rule sum_length_filter_compl)
  with one three have two: "length (filter (\<lambda>p. \<not> isl (getTextContent env p)) pages) = 2"
    by simp
  have others: "\<not> isl (getTextContent env p)" if "p \<in> set pages" "p \<noteq> q" for p
  proof
    assume "isl (getTextContent env p)"
    with that(1) have "p \<in> set (filter (\<lambda>p. isl (getTextContent env p)) pages)" by simp
    with one that(2) show False by simp
  qed
  from preload_body_settles [OF ne doc range sk fresh quiet]
  obtain w' where "preload_body env options source pages w
           = (Fulfilled
                \<lparr>success = (filter (\<lambda>p. isl (getTextContent env p)) pages = []),
                 cached = length (filter (\<lambda>p. \<not> isl (getTextContent env p)) pages),
                 failed = length (filter (\<lambda>p. isl (getTextContent env p)) pages),
                 totalPages = length pages,
                 errors = (if failures env (completion_order env pages) \<noteq> []
                           then Some (failures env (completion_order env pages)) else None)\<rparr>,
              w')"
      "\<forall>p \<in> set pages. GetPage p \<in> set (trace w')"
      "\<forall>p \<in> set pages. \<not> isl (getTextContent env p) \<longrightarrow> CacheSet p \<in> set (trace w')"
    by blast
  with others show ?thesis
    unfolding body by (simp add: f two one three)
qed

text \<open>
  C7 as stated fails when a cached page cannot be counted. With a progress callback that
  throws, each of the two pages whose text was written to the cache lands in the \<open>catch\<close>
  block of its task. With a binary source on a platform whose digest rejects, no cache key
  can be derived and each write rejects. In both preloads the extraction of page 2 alone
  rejects, and the result is \<open>{success: false, cached: 0, failed: 3, totalPages: 3}\<close> with
  three entries in the error list.
\<close>

theorem C7_cached_pages_counted_as_failed:
  "filter (\<lambda>p. isl (getTextContent three_page_host p))
       [Integer False 1, Integer False 2, Integer False 3] = [Integer False 2]
   \<and> fst (preloadTextLayerCache three_page_host
            \<lparr>onProgress = Some throwing_callback, skipCached = False\<rparr>
            (SString ''a.pdf'') (Pages [Integer False 1, Integer False 2, Integer False 3])
            fresh_world)
       = Fulfilled \<lparr>success = False, cached = 0, failed = 3, totalPages = 3,
            errors = Some [\<lparr>page = Integer False 3, error = Error ''callback failed''\<rparr>,
                           \<lparr>page = Integer False 1, error = Error ''callback failed''\<rparr>,
                           \<lparr>page = Integer False 2, error = Error ''extraction failed''\<rparr>]\<rparr>
   \<and> map fst (cache (textLayerCache (snd (preloadTextLayerCache three_page_host
            \<lparr>onProgress = Some throwing_callback, skipCached = False\<rparr>
            (SString ''a.pdf'') (Pages [Integer False 1, Integer False 2, Integer False 3])
            fresh_world))))
       = [''a.pdf:3'', ''a.pdf:1'']
   \<and> filter (\<lambda>p. isl (getTextContent no_digest_host p))
       [Integer False 1, Integer False 2, Integer False 3] = [Integer False 2]
   \<and> fst (preloadTextLayerCache no_digest_host \<lparr>onProgress = None, skipCached = False\<rparr>
            (SUint8Array [1] [1]) (Pages [Integer False 1, Integer False 2, Integer False 3])
            fresh_world)
       = Fulfilled \<lparr>success = False, cached = 0, failed = 3, totalPages = 3,
            errors = Some
              [\<lparr>page = Integer False 3, error = TypeError ''crypto.subtle is undefined''\<rparr>,
               \<lparr>page = Integer False 1, error = TypeError ''crypto.subtle is undefined''\<rparr>,
               \<lparr>page = Integer False 2, error = Error ''extraction failed''\<rparr>]\<rparr>"
  by code_simp

theorem C7_one_failure_of_three_witness:
  "\<not> falsy (SString ''a.pdf'')
   \<and> length [Integer False 1, Integer False 2, Integer False 3] = 3
   \<and> list_all (\<lambda>p. \<not> invalidPage p) [Integer False 1, Integer False 2, Integer False 3]
   \<and> (case SString ''a.pdf'' of SDocument d \<Rightarrow> Inr d | _ \<Rightarrow> getDocument three_page_host)
       = Inr \<lparr>numPages = 3, fingerprints = None, fingerprint = None,
               pdfInfo_fingerprints = None\<rparr>
   \<and> list_all (\<lambda>p. page_le p (numPages \<lparr>numPages = 3, fingerprints = None,
                                             fingerprint = None, pdfInfo_fingerprints = None\<rparr>))
        [Integer False 1, Integer False 2, Integer False 3]
   \<and> sourceKey (digest_fn three_page_host) (SString ''a.pdf'') = Inr ''a.pdf''
   \<and> list_all (\<lambda>p. \<not> has (cache (textLayerCache fresh_world))
                          (''a.pdf'' @ '':'' @ toString p))
        [Integer False 1, Integer False 2, Integer False 3]
   \<and> silent_callback 1 3 = None
   \<and> filter (\<lambda>p. isl (getTextContent three_page_host p))
        [Integer False 1, Integer False 2, Integer False 3] = [Integer False 2]
   \<and> getTextContent three_page_host (Integer False 2) = Inl (Error ''extraction failed'')
   \<and> fst (preloadTextLayerCache three_page_host
            \<lparr>onProgress = Some silent_callback, skipCached = True\<rparr>
            (SString ''a.pdf'') (Pages [Integer False 1, Integer False 2, Integer False 3])
            fresh_world)
       = Fulfilled \<lparr>success = False, cached = 2, failed = 1, totalPages = 3,
                    errors = Some [\<lparr>page = Integer False 2,
                                    error = Error ''extraction failed''\<rparr>]\<rparr>"
proof -
  let ?doc = "\<lparr>numPages = 3, fingerprints = None, fingerprint = None,
               pdfInfo_fingerprints = None\<rparr>"
  let ?ps = "[Integer False 1, Integer False 2, Integer False 3]"
  let ?o = "\<lparr>onProgress = Some silent_callback, skipCached = True\<rparr>"
  have h1: "\<not> falsy (SString ''a.pdf'')" by code_simp
  have h2: "length ?ps = 3" by simp
  have h3: "\<forall>p \<in> set ?ps. \<not> invalidPage p" by code_simp
  have h4: "(case SString ''a.pdf'' of SDocument d \<Rightarrow> Inr d | _ \<Rightarrow> getDocument three_page_host)
              = Inr ?doc" by code_simp
  have h5: "\<forall>p \<in> set ?ps. page_le p (numPages ?doc)" by code_simp
  have h6: "sourceKey (digest_fn three_page_host) (SString ''a.pdf'') = Inr ''a.pdf''"
    by code_simp
  have h7: "\<forall>p \<in> set ?ps.
              \<not> has (cache (textLayerCache fresh_world)) (''a.pdf'' @ '':'' @ toString p)"
    by code_simp
  have h8: "\<forall>f. onProgress ?o = Some f \<longrightarrow> (\<forall>n m. f n m = None)"
    by (simp add: silent_callback_def)
  have h8': "silent_callback 1 3 = None" by (simp add: silent_callback_def)
  have h9: "filter (\<lambda>p. isl (getTextContent three_page_host p)) ?ps = [Integer False 2]"
    by code_simp
  have h10: "getTextContent three_page_host (Integer False 2) = Inl (Error ''extraction failed'')"
    by code_simp
  from C7_one_failure_of_three [OF h1 h2 h3 h4 h5 h6 _ h8 h9 h10, of fresh_world] h7
  have "fst (preloadTextLayerCache three_page_host ?o (SString ''a.pdf'') (Pages ?ps) fresh_world)
       = Fulfilled \<lparr>success = False, cached = 2, failed = 1, totalPages = 3,
                    errors = Some [\<lparr>page = Integer False 2,
                                    error = Error ''extraction failed''\<rparr>]\<rparr>"
    by blast
  with h1 h2 h3 h4 h5 h6 h7 h8' h9 h10 show ?thesis
    unfolding list_all_iff by blast
qed

text \<open>
  The same call evaluated, with the events it leaves in the trace: the three pages are
  requested in the order of the argument and the tasks complete in the order 3, 1, 2.
\<close>

lemma preload_example:
  "preloadTextLayerCache three_page_host \<lparr>onProgress = Some silent_callback, skipCached = True\<rparr>
     (SString ''a.pdf'') (Pages [Integer False 1, Integer False 2, Integer False 3]) fresh_world
   = (Fulfilled \<lparr>success = False, cached = 2, failed = 1, totalPages = 3,
                  errors = Some [\<lparr>page = Integer False 2,
                                  error = Error ''extraction failed''\<rparr>]\<rparr>,
      \<lparr>textLayerCache =
         \<lparr>hitCount = 0, missCount = 3,
          cache = [(''a.pdf:3'', \<lparr>content = 0, lastAccessed = 7, accessCount = 1\<rparr>),
                   (''a.pdf:1'', \<lparr>content = 0, lastAccessed = 9, accessCount = 1\<rparr>)],
          maxSize = 100\<rparr>,
       trace = [GetDocument, CacheGet (Integer False 1), CacheGet (Integer False 2),
                CacheGet (Integer False 3), GetPage (Integer False 1),
                GetPage (Integer False 2), GetPage (Integer False 3),
                CacheSet (Integer False 3), OnProgress 1 3,
                CacheSet (Integer False 1), OnProgress 2 3, OnProgress 3 3]\<rparr>)"
  by code_simp

text \<open>
  C8. A preload whose source is absent, whose \<open>pages\<close> argument is not an array or is
  empty, or among whose page numbers one is not a positive integer, rejects with an error
  that names what is wrong: the missing source, the empty page list, or the invalid page
  numbers, listed. The world is returned as it was: no document was acquired, the cache was
  not probed, no page was extracted.
\<close>

theorem C8_invalid_arguments_fail_fast:
  "(falsy source \<longrightarrow>
      preloadTextLayerCache env options source pages w
        = (Rejected (Error ''Source is required for preloading TextLayer cache''), w))
   \<and> (\<not> falsy source \<and> (pages = NotAnArray \<or> pages = Pages []) \<longrightarrow>
      preloadTextLayerCache env options source pages w
        = (Rejected (Error ''Pages array must contain at least one page number''), w))
   \<and> (\<not> falsy source \<and> pages = Pages ps \<and> (\<exists>p \<in> set ps. invalidPage p) \<longrightarrow>
      preloadTextLayerCache env options source pages w
        = (Rejected (Error (''Invalid page numbers: ''
                             @ join '', '' (map toString (filter invalidPage ps))
                             @ ''. Page numbers must be positive integers.'')), w))"
proof (intro conjI impI)
  assume "falsy source"
  then show "preloadTextLayerCache env options source pages w
        = (Rejected (Error ''Source is required for preloading TextLayer cache''), w)"
    by (simp add: preloadTextLayerCache_def)
next
  assume "\<not> falsy source \<and> (pages = NotAnArray \<or> pages = Pages [])"
  then show "preloadTextLayerCache env options source pages w
        = (Rejected (Error ''Pages array must contain at least one page number''), w)"
    by (auto simp: preloadTextLayerCache_def)
next
  assume a: "\<not> falsy source \<and> pages = Pages ps \<and> (\<exists>p \<in> set ps. invalidPage p)"
  then have "ps \<noteq> []" "filter invalidPage ps \<noteq> []"
    by (auto simp: filter_empty_conv)
  with a show "preloadTextLayerCache env options source pages w
        = (Rejected (Error (''Invalid page numbers: ''
                             @ join '', '' (map toString (filter invalidPage ps))
                             @ ''. Page numbers must be positive integers.'')), w)"
    by (simp add: preloadTextLayerCache_def Let_def)
qed

theorem C8_invalid_arguments_fail_fast_witness:
  "falsy SNull
   \<and> preloadTextLayerCache three_page_host \<lparr>onProgress = Some silent_callback, skipCached = True\<rparr>
        SNull (Pages [Integer False 1]) fresh_world
       = (Rejected (Error ''Source is required for preloading TextLayer cache''), fresh_world)
   \<and> \<not> falsy (SString ''a.pdf'')
   \<and> preloadTextLayerCache three_page_host \<lparr>onProgress = Some silent_callback, skipCached = True\<rparr>
        (SString ''a.pdf'') NotAnArray fresh_world
       = (Rejected (Error ''Pages array must contain at least one page number''), fresh_world)
   \<and> (\<exists>p \<in> set [Integer False 0, NonInteger ''1.5'', Integer False 2]. invalidPage p)
   \<and> preloadTextLayerCache three_page_host \<lparr>onProgress = Some silent_callback, skipCached = True\<rparr>
        (SString ''a.pdf'') (Pages [Integer False 0, NonInteger ''1.5'', Integer False 2]) fresh_world
       = (Rejected (Error ''Invalid page numbers: 0, 1.5. Page numbers must be positive integers.''),
          fresh_world)"
proof -
  let ?o = "\<lparr>onProgress = Some silent_callback, skipCached = True\<rparr>"
  let ?ps = "[Integer False 0, NonInteger ''1.5'', Integer False 2]"
  have h1: "falsy SNull" by code_simp
  have h2: "\<not> falsy (SString ''a.pdf'')" by code_simp
  have h3: "\<exists>p \<in> set ?ps. invalidPage p" by code_simp
  have m: "''Invalid page numbers: '' @ join '', '' (map toString (filter invalidPage ?ps))
             @ ''. Page numbers must be positive integers.''
           = ''Invalid page numbers: 0, 1.5. Page numbers must be positive integers.''"
    by code_simp
  from C8_invalid_arguments_fail_fast [of SNull three_page_host ?o "Pages [Integer False 1]" fresh_world] h1
  have a: "preloadTextLayerCache three_page_host ?o SNull (Pages [Integer False 1]) fresh_world
       = (Rejected (Error ''Source is required for preloading TextLayer cache''), fresh_world)"
    by blast
  from C8_invalid_arguments_fail_fast [of "SString ''a.pdf''" three_page_host ?o NotAnArray
      fresh_world] h2
  have b: "preloadTextLayerCache three_page_host ?o (SString ''a.pdf'') NotAnArray fresh_world
       = (Rejected (Error ''Pages array must contain at least one page number''), fresh_world)"
    by blast
  from C8_invalid_arguments_fail_fast [of "SString ''a.pdf''" three_page_host ?o "Pages ?ps"
      fresh_world ?ps] h2 h3
  have "preloadTextLayerCache three_page_host ?o (SString ''a.pdf'') (Pages ?ps) fresh_world
       = (Rejected (Error (''Invalid page numbers: ''
                             @ join '', '' (map toString (filter invalidPage ?ps))
                             @ ''. Page numbers must be positive integers.'')), fresh_world)"
    by blast
  then have c: "preloadTextLayerCache three_page_host ?o (SString ''a.pdf'') (Pages ?ps) fresh_world
       = (Rejected (Error ''Invalid page numbers: 0, 1.5. Page numbers must be positive integers.''),
          fresh_world)"
    unfolding m .
  from h1 h2 h3 a b c show ?thesis by blast
qed

end
